theory Spec2Isabelle
  imports
    Main
    "HOL-Library.Char_ord"
    "HOL-Library.List_Lexorder"
    "HOL-Library.Sublist"
    "HOL-Library.AList"
begin

section \<open>Docker mount management of bcbio-nextgen-vm (\<^verbatim>\<open>bcbiovm/docker/mounts.py\<close>)\<close>

text \<open>
  The module rewrites the paths of a sample configuration to mount points inside a
  container. It is embedded function by function. Python values are a datatype, a raised
  exception is the \<open>Inl\<close> of a sum, dictionaries are association lists in insertion
  order (looked up with \<open>map_of\<close>; only the order of the returned mount list depends
  on the order), and the host file system is an explicit record that
  \<^verbatim>\<open>prepare_system\<close> threads through.
\<close>

subsection \<open>Python values and exceptions\<close>

text \<open>
  \<^verbatim>\<open>isinstance(v, (list, tuple))\<close> accepts both sequence types, so one constructor
  carries the kind. Strings are \<^verbatim>\<open>six.string_types\<close>. A float is kept as a mantissa
  and a binary exponent: the module never computes with one, but \<^verbatim>\<open>os.path.exists\<close>
  tells it from an integer.
\<close>

datatype seq_kind = ListSeq | TupleSeq

datatype pyval =
    PNone
  | PBool bool
  | PInt int
  | PFloat int int
  | PStr string
  | PSeq seq_kind "pyval list"
  | PDict "(string \<times> pyval) list"

text \<open>
  The exceptions the module can raise, under Python 3: \<^verbatim>\<open>os.path.join\<close>,
  \<^verbatim>\<open>os.path.split\<close> and \<^verbatim>\<open>os.path.dirname\<close> raise \<^verbatim>\<open>TypeError\<close> on an
  argument that is not a string.
\<close>

datatype py_error = KeyError | TypeError | OverflowError | OSError

text \<open>A comprehension or loop body that may raise: the first exception ends the loop.\<close>

fun try_map :: "('a \<Rightarrow> py_error + 'b) \<Rightarrow> 'a list \<Rightarrow> py_error + 'b list" where
  "try_map h [] = Inr []"
| "try_map h (a # as) =
     (case h a of
        Inl e \<Rightarrow> Inl e
      | Inr b \<Rightarrow> (case try_map h as of Inl e \<Rightarrow> Inl e | Inr bs \<Rightarrow> Inr (b # bs)))"

lemma try_map_cong [fundef_cong]:
  "\<lbrakk>as = bs; \<And>a. a \<in> set bs \<Longrightarrow> h a = h' a\<rbrakk> \<Longrightarrow> try_map h as = try_map h' bs"
proof -
  have "(\<forall>a \<in> set bs. h a = h' a) \<longrightarrow> try_map h bs = try_map h' bs"
    by (induction bs) (auto split: sum.splits)
  then show "\<lbrakk>as = bs; \<And>a. a \<in> set bs \<Longrightarrow> h a = h' a\<rbrakk> \<Longrightarrow> try_map h as = try_map h' bs"
    by simp
qed

subsection \<open>The functions of \<^verbatim>\<open>os.path\<close> (POSIX) the module calls\<close>

definition isabs :: "string \<Rightarrow> bool" where
  "isabs p = (case p of [] \<Rightarrow> False | c # _ \<Rightarrow> c = CHR ''/'')"

text \<open>\<^verbatim>\<open>os.path.join(a, b)\<close>: an absolute \<open>b\<close> replaces \<open>a\<close>.\<close>

definition path_join :: "string \<Rightarrow> string \<Rightarrow> string" where
  "path_join a b =
     (if isabs b then b
      else if a = [] \<or> last a = CHR ''/'' then a @ b
      else a @ ''/'' @ b)"

text \<open>
  \<^verbatim>\<open>os.path.split(p)\<close>: the tail is what follows the last slash; the head is the rest
  without its trailing slashes, unless it consists of slashes only.
\<close>

definition path_split :: "string \<Rightarrow> string \<times> string" where
  "path_split p =
     (let tail = rev (takeWhile (\<lambda>c. c \<noteq> CHR ''/'') (rev p));
          head = rev (dropWhile (\<lambda>c. c \<noteq> CHR ''/'') (rev p))
      in (if head \<noteq> [] \<and> \<not> list_all (\<lambda>c. c = CHR ''/'') head
          then rev (dropWhile (\<lambda>c. c = CHR ''/'') (rev head))
          else head,
          tail))"

definition dirname :: "string \<Rightarrow> string" where
  "dirname p = fst (path_split p)"

text \<open>\<^verbatim>\<open>str.split(c)\<close> and \<^verbatim>\<open>'/'.join(comps)\<close>, for \<^verbatim>\<open>os.path.normpath\<close>.\<close>

fun split_on :: "char \<Rightarrow> string \<Rightarrow> string list" where
  "split_on c [] = [[]]"
| "split_on c (x # xs) =
     (if x = c then [] # split_on c xs
      else (case split_on c xs of [] \<Rightarrow> [[x]] | w # ws \<Rightarrow> (x # w) # ws))"

fun join_slash :: "string list \<Rightarrow> string" where
  "join_slash [] = []"
| "join_slash [x] = x"
| "join_slash (x # y # ys) = x @ ''/'' @ join_slash (y # ys)"

definition normpath_step :: "bool \<Rightarrow> string list \<Rightarrow> string \<Rightarrow> string list" where
  "normpath_step initial new_comps seg =
     (if seg = [] \<or> seg = ''.'' then new_comps
      else if seg \<noteq> ''..'' \<or> (\<not> initial \<and> new_comps = [])
              \<or> (new_comps \<noteq> [] \<and> last new_comps = ''..'')
           then new_comps @ [seg]
      else if new_comps \<noteq> [] then butlast new_comps
      else new_comps)"

definition normpath :: "string \<Rightarrow> string" where
  "normpath path =
     (if path = [] then ''.''
      else
        let initial_slashes :: nat =
              (if isabs path
               then (if take 2 path = ''//'' \<and> take 3 path \<noteq> ''///'' then 2 else 1)
               else 0);
            comps = foldl (normpath_step (0 < initial_slashes)) [] (split_on CHR ''/'' path);
            p = replicate initial_slashes CHR ''/'' @ join_slash comps
        in if p = [] then ''.'' else p)"

text \<open>\<^verbatim>\<open>str(i)\<close> of a natural number.\<close>

definition digit_char :: "nat \<Rightarrow> char" where
  "digit_char n = ''0123456789'' ! n"

fun str_nat :: "nat \<Rightarrow> string" where
  "str_nat n =
     (if n < 10 then [digit_char n] else str_nat (n div 10) @ [digit_char (n mod 10)])"

declare str_nat.simps [simp del]

subsection \<open>The host file system\<close>

text \<open>
  What the module asks of the host: \<^verbatim>\<open>os.path.exists\<close> of a path and of a file
  descriptor (what Python 3 takes an integer for), \<^verbatim>\<open>os.path.realpath\<close>,
  \<^verbatim>\<open>os.getcwd()\<close>, and \<^verbatim>\<open>os.makedirs\<close>, which raises \<^verbatim>\<open>OSError\<close> where
  the host refuses the creation. Every theorem below holds for every such host.
\<close>

record hostfs =
  fs_exists :: "string \<Rightarrow> bool"
  fs_fd_open :: "int \<Rightarrow> bool"
  fs_realpath :: "string \<Rightarrow> string"
  fs_cwd :: string
  fs_mkdir_denied :: "string \<Rightarrow> bool"

text \<open>The proper ancestors of a path, nearest first.\<close>

function path_ancestors :: "string \<Rightarrow> string list" where
  "path_ancestors p =
     (let h = dirname p
      in if h = [] \<or> length p \<le> length h then [] else h # path_ancestors h)"
  by pat_completeness auto
termination
  by (relation "measure length") auto

declare path_ancestors.simps [simp del]

text \<open>
  \<^verbatim>\<open>os.makedirs(p)\<close>: creates the leaf directory and every intermediate one; an
  existing leaf or a refused creation raises \<^verbatim>\<open>OSError\<close>. Creating plain
  directories adds no symbolic link, so \<open>fs_realpath\<close> is unchanged.
\<close>

definition makedirs :: "hostfs \<Rightarrow> string \<Rightarrow> py_error + hostfs" where
  "makedirs fs p =
     (if fs_exists fs p \<or> fs_mkdir_denied fs p then Inl OSError
      else Inr (fs\<lparr>fs_exists := (\<lambda>q. q = p \<or> q \<in> set (path_ancestors p) \<or> fs_exists fs q)\<rparr>))"

subsection \<open>\<^verbatim>\<open>prepare_system\<close>\<close>

definition system_dirs :: "string list" where
  "system_dirs = [''genomes'', ''liftOver'', ''gemini_data'', ''galaxy'']"

definition cur_d :: "hostfs \<Rightarrow> string \<Rightarrow> string \<Rightarrow> string" where
  "cur_d fs datadir d = normpath (fs_realpath fs (path_join datadir d))"

text \<open>The loop body and the loop of \<^verbatim>\<open>prepare_system\<close>, over the names still to do.\<close>

fun prepare_loop ::
  "string \<Rightarrow> string \<Rightarrow> string list \<Rightarrow> string list \<times> hostfs \<Rightarrow> py_error + (string list \<times> hostfs)"
where
  "prepare_loop datadir docker_biodata_dir [] (mounts, fs) = Inr (mounts, fs)"
| "prepare_loop datadir docker_biodata_dir (d # ds) (mounts, fs) =
     (let c = cur_d fs datadir d;
          spec = c @ '':'' @ docker_biodata_dir @ ''/'' @ d
      in if \<not> fs_exists fs c
         then (case makedirs fs c of
                 Inl e \<Rightarrow> Inl e
               | Inr fs' \<Rightarrow> prepare_loop datadir docker_biodata_dir ds (mounts @ [spec], fs'))
         else prepare_loop datadir docker_biodata_dir ds (mounts @ [spec], fs))"

definition prepare_system :: "hostfs \<Rightarrow> string \<Rightarrow> string \<Rightarrow> py_error + (string list \<times> hostfs)" where
  "prepare_system fs datadir docker_biodata_dir =
     prepare_loop datadir docker_biodata_dir system_dirs ([], fs)"

subsection \<open>\<^verbatim>\<open>_normalize_path\<close> and \<^verbatim>\<open>abs_file_paths\<close>\<close>

text \<open>
  \<^verbatim>\<open>_normalize_path(x, base_dirs)\<close>: the first base directory under which \<open>x\<close>
  exists decides; \<^verbatim>\<open>os.path.join\<close> raises on an \<open>x\<close> that is not a string.
\<close>

fun normalize_path :: "hostfs \<Rightarrow> pyval \<Rightarrow> string list \<Rightarrow> py_error + string option" where
  "normalize_path fs x [] = Inr None"
| "normalize_path fs x (base_dir # base_dirs) =
     (case x of
        PStr s \<Rightarrow>
          (if fs_exists fs (path_join base_dir s)
           then Inr (Some (normpath (fs_realpath fs (path_join base_dir s))))
           else normalize_path fs x base_dirs)
      | _ \<Rightarrow> Inl TypeError)"

text \<open>Python's truth value of what \<^verbatim>\<open>_normalize_path\<close> returns, and the value itself.\<close>

definition truthy_path :: "string option \<Rightarrow> bool" where
  "truthy_path r = (case r of None \<Rightarrow> False | Some s \<Rightarrow> s \<noteq> [])"

definition path_value :: "string option \<Rightarrow> pyval" where
  "path_value r = (case r of None \<Rightarrow> PNone | Some s \<Rightarrow> PStr s)"

text \<open>One iteration of the loop of \<^verbatim>\<open>abs_file_paths\<close> over \<^verbatim>\<open>xs.items()\<close>.\<close>

definition abs_entry ::
  "hostfs \<Rightarrow> string list \<Rightarrow> string list \<Rightarrow> string \<times> pyval \<Rightarrow> py_error + (string \<times> pyval)"
where
  "abs_entry fs base_dirs ignore kv =
     (case kv of (k, v) \<Rightarrow>
        if k \<in> set ignore then Inr (k, v)
        else (case v of
            PStr s \<Rightarrow>
              (if s = [] then Inr (k, v)
               else (case normalize_path fs v base_dirs of
                       Inl e \<Rightarrow> Inl e
                     | Inr r \<Rightarrow> if truthy_path r then Inr (k, path_value r) else Inr (k, v)))
          | PSeq kind [] \<Rightarrow> Inr (k, v)
          | PSeq kind (x0 # rest) \<Rightarrow>
              (case normalize_path fs x0 base_dirs of
                 Inl e \<Rightarrow> Inl e
               | Inr r \<Rightarrow>
                   if truthy_path r
                   then (case try_map (\<lambda>x. normalize_path fs x base_dirs) (x0 # rest) of
                           Inl e \<Rightarrow> Inl e
                         | Inr rs \<Rightarrow> Inr (k, PSeq ListSeq (map path_value rs)))
                   else Inr (k, v))
          | _ \<Rightarrow> Inr (k, v)))"

text \<open>
  \<^verbatim>\<open>abs_file_paths(xs, base_dirs, ignore)\<close>. The second component of the result is
  the caller's \<^verbatim>\<open>base_dirs\<close> object after the call: a non-empty list is appended to in
  place, while \<^verbatim>\<open>None\<close> and the empty list are replaced by a fresh list that the
  caller never sees. \<^verbatim>\<open>ignore=None\<close> is the empty list.
\<close>

definition abs_file_paths ::
  "hostfs \<Rightarrow> pyval \<Rightarrow> string list option \<Rightarrow> string list
     \<Rightarrow> (py_error + pyval) \<times> string list option"
where
  "abs_file_paths fs xs base_dirs ignore =
     (case xs of
        PDict kvs \<Rightarrow>
          (let (dirs, caller) =
                 (case base_dirs of
                    Some (b # bs) \<Rightarrow> ((b # bs) @ [fs_cwd fs], Some ((b # bs) @ [fs_cwd fs]))
                  | _ \<Rightarrow> ([fs_cwd fs], base_dirs))
           in (case try_map (abs_entry fs dirs ignore) kvs of
                 Inl e \<Rightarrow> (Inl e, caller)
               | Inr out \<Rightarrow> (Inr (PDict out), caller)))
      | _ \<Rightarrow> (Inr xs, base_dirs))"

subsection \<open>\<^verbatim>\<open>_get_directories\<close> and \<^verbatim>\<open>_remap_directories\<close>\<close>

text \<open>
  \<^verbatim>\<open>os.path.exists\<close> on an arbitrary value, under Python 3. An integer is a file
  descriptor: the answer is \<^verbatim>\<open>False\<close> for a negative or closed one, and
  \<^verbatim>\<open>os.stat\<close> raises \<^verbatim>\<open>OverflowError\<close> outside the range of a C \<^verbatim>\<open>int\<close>. A
  Boolean is the integer 1 or 0. Every other value that is not a string raises
  \<^verbatim>\<open>TypeError\<close>. \<^verbatim>\<open>os.path.dirname\<close> raises on every value that is not a string.
\<close>

definition py_exists :: "hostfs \<Rightarrow> pyval \<Rightarrow> py_error + bool" where
  "py_exists fs x =
     (case x of
        PStr s \<Rightarrow> Inr (fs_exists fs s)
      | PInt n \<Rightarrow>
          if n < - (2 ^ 31) \<or> 2 ^ 31 \<le> n then Inl OverflowError
          else Inr (0 \<le> n \<and> fs_fd_open fs n)
      | PBool b \<Rightarrow> Inr (fs_fd_open fs (if b then 1 else 0))
      | _ \<Rightarrow> Inl TypeError)"

definition py_dirname :: "pyval \<Rightarrow> py_error + string" where
  "py_dirname x = (case x of PStr s \<Rightarrow> Inr (dirname s) | _ \<Rightarrow> Inl TypeError)"

fun get_directories :: "hostfs \<Rightarrow> pyval \<Rightarrow> py_error + string list" where
  "get_directories fs (PDict kvs) =
     (case try_map (\<lambda>kv.
          (case snd kv of
             PDict sub \<Rightarrow> get_directories fs (snd kv)
           | PStr s \<Rightarrow>
               if s \<noteq> [] \<and> fs_exists fs s \<and> isabs s then Inr [dirname s] else Inr []
           | PSeq kind [] \<Rightarrow> Inr []
           | PSeq kind (x0 # rest) \<Rightarrow>
               (case py_exists fs x0 of
                  Inl e \<Rightarrow> Inl e
                | Inr ex \<Rightarrow> if ex then try_map py_dirname (x0 # rest) else Inr [])
           | _ \<Rightarrow> Inr [])) kvs of
        Inl e \<Rightarrow> Inl e
      | Inr dss \<Rightarrow> Inr (concat dss))"
| "get_directories fs v = Inr []"

text \<open>\<^verbatim>\<open>str(os.path.join(mounts[dirname], basename))\<close> for one path.\<close>

definition remap_path :: "(string \<times> string) list \<Rightarrow> pyval \<Rightarrow> py_error + pyval" where
  "remap_path mounts x =
     (case x of
        PStr s \<Rightarrow>
          (case map_of mounts (fst (path_split s)) of
             None \<Rightarrow> Inl KeyError
           | Some m \<Rightarrow> Inr (PStr (path_join m (snd (path_split s)))))
      | _ \<Rightarrow> Inl TypeError)"

fun remap_directories :: "hostfs \<Rightarrow> pyval \<Rightarrow> (string \<times> string) list \<Rightarrow> py_error + pyval" where
  "remap_directories fs (PDict kvs) mounts =
     (case try_map (\<lambda>kv.
          (case snd kv of
             PDict sub \<Rightarrow>
               (case remap_directories fs (snd kv) mounts of
                  Inl e \<Rightarrow> Inl e
                | Inr r \<Rightarrow> Inr (fst kv, r))
           | PStr s \<Rightarrow>
               if s \<noteq> [] \<and> fs_exists fs s \<and> isabs s
               then (case remap_path mounts (snd kv) of
                       Inl e \<Rightarrow> Inl e
                     | Inr r \<Rightarrow> Inr (fst kv, r))
               else Inr kv
           | PSeq kind [] \<Rightarrow> Inr kv
           | PSeq kind (x0 # rest) \<Rightarrow>
               (case py_exists fs x0 of
                  Inl e \<Rightarrow> Inl e
                | Inr ex \<Rightarrow>
                    if ex
                    then (case try_map (remap_path mounts) (x0 # rest) of
                            Inl e \<Rightarrow> Inl e
                          | Inr ready_vs \<Rightarrow> Inr (fst kv, PSeq ListSeq ready_vs))
                    else Inr kv)
           | _ \<Rightarrow> Inr kv)) kvs of
        Inl e \<Rightarrow> Inl e
      | Inr out \<Rightarrow> Inr (PDict out))"
| "remap_directories fs v mounts = Inr v"

subsection \<open>\<^verbatim>\<open>update_config\<close>\<close>

definition top_ignore :: "string list" where
  "top_ignore = [''description'', ''analysis'', ''resources'', ''genome_build'', ''lane'']"

definition algorithm_ignore :: "string list" where
  "algorithm_ignore = [''variantcaller'', ''realign'', ''recalibrate'', ''phasing'', ''svcaller'']"

text \<open>\<^verbatim>\<open>[args.fcdir] if args.fcdir else None\<close>, built afresh for every call.\<close>

definition fcdir_base_dirs :: "string option \<Rightarrow> string list option" where
  "fcdir_base_dirs fcdir =
     (case fcdir of None \<Rightarrow> None | Some s \<Rightarrow> if s = [] then None else Some [s])"

text \<open>\<^verbatim>\<open>x[key]\<close> on an arbitrary value, for a string key.\<close>

definition py_getitem :: "pyval \<Rightarrow> string \<Rightarrow> py_error + pyval" where
  "py_getitem x key =
     (case x of
        PDict kvs \<Rightarrow> (case map_of kvs key of None \<Rightarrow> Inl KeyError | Some v \<Rightarrow> Inr v)
      | _ \<Rightarrow> Inl TypeError)"

text \<open>\<^verbatim>\<open>for d in x\<close>: a string yields its characters, a dictionary its keys.\<close>

definition py_iter :: "pyval \<Rightarrow> py_error + pyval list" where
  "py_iter x =
     (case x of
        PSeq kind xs \<Rightarrow> Inr xs
      | PStr s \<Rightarrow> Inr (map (\<lambda>c. PStr [c]) s)
      | PDict kvs \<Rightarrow> Inr (map (\<lambda>kv. PStr (fst kv)) kvs)
      | _ \<Rightarrow> Inl TypeError)"

text \<open>
  The body of the first loop of \<^verbatim>\<open>update_config\<close> for one sample: the absolutized
  sample and the directories it contributes.
\<close>

definition absolutize_sample ::
  "hostfs \<Rightarrow> string option \<Rightarrow> pyval \<Rightarrow> py_error + (pyval \<times> string list)"
where
  "absolutize_sample fs fcdir d0 =
     (case fst (abs_file_paths fs d0 (fcdir_base_dirs fcdir) top_ignore) of
        Inl e \<Rightarrow> Inl e
      | Inr d \<Rightarrow>
          (case py_getitem d ''algorithm'' of
             Inl e \<Rightarrow> Inl e
           | Inr alg \<Rightarrow>
               (case fst (abs_file_paths fs alg (fcdir_base_dirs fcdir) algorithm_ignore) of
                  Inl e \<Rightarrow> Inl e
                | Inr alg' \<Rightarrow>
                    (case d of
                       PDict kvs \<Rightarrow>
                         (let d' = PDict (AList.update ''algorithm'' alg' kvs)
                          in (case get_directories fs d' of
                                Inl e \<Rightarrow> Inl e
                              | Inr dirs \<Rightarrow> Inr (d', dirs)))
                     | _ \<Rightarrow> Inl TypeError))))"

text \<open>The first loop: \<open>absdetails\<close> and \<open>directories\<close> as they stand after it.\<close>

definition absolutize_details ::
  "hostfs \<Rightarrow> string option \<Rightarrow> pyval list \<Rightarrow> py_error + (pyval list \<times> string list)"
where
  "absolutize_details fs fcdir ds =
     (case try_map (absolutize_sample fs fcdir) ds of
        Inl e \<Rightarrow> Inl e
      | Inr rs \<Rightarrow> Inr (map fst rs, concat (map snd rs)))"

text \<open>
  The second loop: \<^verbatim>\<open>for i, d in enumerate(sorted(set(directories)))\<close> fills the
  dictionary \<open>mounts\<close>; the keys are distinct, so the insertion order is the sorted one.
\<close>

definition allocate_mounts :: "string \<Rightarrow> string list \<Rightarrow> (string \<times> string) list" where
  "allocate_mounts input_dir directories =
     map (\<lambda>(i, d). (d, path_join input_dir (str_nat i)))
       (List.enumerate 0 (sort (remdups directories)))"

definition mount_spec :: "string \<times> string \<Rightarrow> string" where
  "mount_spec kv = fst kv @ '':'' @ snd kv"

definition update_config ::
  "hostfs \<Rightarrow> string option \<Rightarrow> pyval \<Rightarrow> string \<Rightarrow> py_error + (pyval \<times> string list)"
where
  "update_config fs fcdir config input_dir =
     (case py_getitem config ''details'' of
        Inl e \<Rightarrow> Inl e
      | Inr details \<Rightarrow>
          (case py_iter details of
             Inl e \<Rightarrow> Inl e
           | Inr ds \<Rightarrow>
               (case absolutize_details fs fcdir ds of
                  Inl e \<Rightarrow> Inl e
                | Inr (absdetails, directories) \<Rightarrow>
                    (let mounts = allocate_mounts input_dir directories
                     in (case try_map (\<lambda>d. remap_directories fs d mounts) absdetails of
                           Inl e \<Rightarrow> Inl e
                         | Inr remapped \<Rightarrow>
                             (case config of
                                PDict ckvs \<Rightarrow>
                                  Inr (PDict (AList.update ''details'' (PSeq ListSeq remapped) ckvs),
                                       map mount_spec mounts)
                              | _ \<Rightarrow> Inl TypeError))))))"

subsection \<open>Hosts and configurations of the scenarios\<close>

text \<open>
  A host on which \<^verbatim>\<open>/data/run1\<close> holds \<^verbatim>\<open>sample.bam\<close> and nothing is a symbolic
  link, and the configuration of the scenario.
\<close>

definition scenario_config :: pyval where
  "scenario_config =
     PDict [(''details'',
       PSeq ListSeq
         [PDict [(''files'', PStr ''sample.bam''),
                 (''algorithm'', PDict [(''aligner'', PStr ''bwa'')])]])]"

definition scenario_fs :: hostfs where
  "scenario_fs =
     \<lparr>fs_exists = (\<lambda>p. p \<in> set [''/'', ''/data'', ''/data/run1'', ''/data/run1/sample.bam'',
                                  ''/home'', ''/home/user'']),
      fs_fd_open = (\<lambda>n. n \<in> {0, 1, 2}),
      fs_realpath = (\<lambda>p. normpath (path_join ''/home/user'' p)),
      fs_cwd = ''/home/user'',
      fs_mkdir_denied = (\<lambda>p. False)\<rparr>"


text \<open>
  Scenario A with a lane given as a list of integers, a value that is no path, and what
  the pipeline returns on it.
\<close>

definition lane_sample :: pyval where
  "lane_sample =
     PDict [(''lane'', PSeq ListSeq [PInt (- 1)]),
            (''files'', PStr ''sample.bam''),
            (''algorithm'', PDict [(''aligner'', PStr ''bwa'')])]"

definition lane_config :: pyval where
  "lane_config = PDict [(''details'', PSeq ListSeq [lane_sample])]"

definition lane_absolutized :: pyval where
  "lane_absolutized =
     PDict [(''lane'', PSeq ListSeq [PInt (- 1)]),
            (''files'', PStr ''/data/run1/sample.bam''),
            (''algorithm'', PDict [(''aligner'', PStr ''bwa'')])]"

definition lane_remapped :: pyval where
  "lane_remapped =
     PDict [(''details'',
       PSeq ListSeq
         [PDict [(''lane'', PSeq ListSeq [PInt (- 1)]),
                 (''files'', PStr ''/mnt/in/0/sample.bam''),
                 (''algorithm'', PDict [(''aligner'', PStr ''bwa'')])]])]"

text \<open>
  A host whose working directory holds an entry named \<^verbatim>\<open>gatk\<close>, and a configuration
  that names variant callers, not files.
\<close>

definition gatk_fs :: hostfs where
  "gatk_fs =
     \<lparr>fs_exists = (\<lambda>p. p \<in> set [''/'', ''/home'', ''/home/user'', ''/home/user/gatk'', ''gatk'']),
      fs_fd_open = (\<lambda>n. n \<in> {0, 1, 2}),
      fs_realpath = (\<lambda>p. normpath (path_join ''/home/user'' p)),
      fs_cwd = ''/home/user'',
      fs_mkdir_denied = (\<lambda>p. False)\<rparr>"

definition gatk_config :: pyval where
  "gatk_config =
     PDict [(''details'',
       PSeq ListSeq
         [PDict [(''description'', PStr ''Sample1''),
                 (''algorithm'',
                    PDict [(''variantcaller'', PSeq ListSeq [PStr ''gatk'', PStr ''freebayes''])])]])]"

text \<open>
  Two configurations with values under ignored keys: a description that is an absolute
  existing path; and a description and a variant caller that name a file of the base
  directory, beside a lane that is a list of integers.
\<close>

definition described_config :: pyval where
  "described_config =
     PDict [(''details'',
       PSeq ListSeq
         [PDict [(''description'', PStr ''/data/run1/sample.bam''),
                 (''algorithm'', PDict [(''aligner'', PStr ''bwa'')])]])]"

definition ignoring_config :: pyval where
  "ignoring_config =
     PDict [(''details'',
       PSeq ListSeq
         [PDict [(''description'', PStr ''sample.bam''),
                 (''lane'', PSeq ListSeq [PInt (- 1)]),
                 (''files'', PStr ''sample.bam''),
                 (''algorithm'', PDict [(''variantcaller'', PStr ''sample.bam'')])]])]"

text \<open>
  A host whose data root \<^verbatim>\<open>/data\<close> is a symbolic link to the empty directory
  \<^verbatim>\<open>/store\<close> (Scenario C, behind a link).
\<close>

definition linked_data_fs :: hostfs where
  "linked_data_fs =
     \<lparr>fs_exists = (\<lambda>p. p \<in> set [''/'', ''/store'', ''/data'']),
      fs_fd_open = (\<lambda>n. n \<in> {0, 1, 2}),
      fs_realpath = (\<lambda>p. if p = ''/data'' \<or> prefix ''/data/'' p
                           then normpath (''/store'' @ drop 5 p)
                           else normpath (path_join ''/home/user'' p)),
      fs_cwd = ''/home/user'',
      fs_mkdir_denied = (\<lambda>p. False)\<rparr>"

subsection \<open>Notions the properties are stated with\<close>

text \<open>
  The list \<^verbatim>\<open>abs_file_paths\<close> resolves against: the caller's directories, then the
  working directory.
\<close>

definition resolve_dirs :: "hostfs \<Rightarrow> string list option \<Rightarrow> string list" where
  "resolve_dirs fs base_dirs =
     (case base_dirs of Some (b # bs) \<Rightarrow> (b # bs) @ [fs_cwd fs] | _ \<Rightarrow> [fs_cwd fs])"

text \<open>
  The body of the loop of \<^verbatim>\<open>_remap_directories\<close> for one item, named so that the
  proofs can speak of it.
\<close>

definition remap_entry ::
  "hostfs \<Rightarrow> (string \<times> string) list \<Rightarrow> string \<times> pyval \<Rightarrow> py_error + (string \<times> pyval)"
where
  "remap_entry fs mounts kv =
     (case snd kv of
        PDict sub \<Rightarrow>
          (case remap_directories fs (snd kv) mounts of
             Inl e \<Rightarrow> Inl e
           | Inr r \<Rightarrow> Inr (fst kv, r))
      | PStr s \<Rightarrow>
          if s \<noteq> [] \<and> fs_exists fs s \<and> isabs s
          then (case remap_path mounts (snd kv) of
                  Inl e \<Rightarrow> Inl e
                | Inr r \<Rightarrow> Inr (fst kv, r))
          else Inr kv
      | PSeq kind [] \<Rightarrow> Inr kv
      | PSeq kind (x0 # rest) \<Rightarrow>
          (case py_exists fs x0 of
             Inl e \<Rightarrow> Inl e
           | Inr ex \<Rightarrow>
               if ex
               then (case try_map (remap_path mounts) (x0 # rest) of
                       Inl e \<Rightarrow> Inl e
                     | Inr ready_vs \<Rightarrow> Inr (fst kv, PSeq ListSeq ready_vs))
               else Inr kv)
      | _ \<Rightarrow> Inr kv)"

text \<open>
  The leaves that \<^verbatim>\<open>_get_directories\<close> and \<^verbatim>\<open>_remap_directories\<close> treat as paths:
  a non-empty string that exists and is absolute, and a non-empty sequence of whose
  first element \<^verbatim>\<open>os.path.exists\<close> is true.
\<close>

definition path_leaf :: "hostfs \<Rightarrow> pyval \<Rightarrow> bool" where
  "path_leaf fs v =
     (case v of
        PStr s \<Rightarrow> s \<noteq> [] \<and> fs_exists fs s \<and> isabs s
      | PSeq kind (x0 # rest) \<Rightarrow> py_exists fs x0 = Inr True
      | _ \<Rightarrow> False)"

text \<open>
  A mapping miss: somewhere under nested mappings, a leaf treated as a path has a
  containing directory (for a sequence: of one of its elements) that is no key of
  \<open>mounts\<close>.
\<close>

fun dir_missing :: "(string \<times> string) list \<Rightarrow> pyval \<Rightarrow> bool" where
  "dir_missing mounts (PStr s) = (map_of mounts (dirname s) = None)"
| "dir_missing mounts v = False"

definition leaf_dirs_missing :: "(string \<times> string) list \<Rightarrow> pyval \<Rightarrow> bool" where
  "leaf_dirs_missing mounts v =
     (case v of PSeq kind xs \<Rightarrow> list_ex (dir_missing mounts) xs | _ \<Rightarrow> dir_missing mounts v)"

fun mapping_miss :: "hostfs \<Rightarrow> (string \<times> string) list \<Rightarrow> pyval \<Rightarrow> bool" where
  "mapping_miss fs mounts (PDict kvs) =
     list_ex (\<lambda>kv.
        (case snd kv of
           PDict sub \<Rightarrow> mapping_miss fs mounts (snd kv)
         | v \<Rightarrow> path_leaf fs v \<and> leaf_dirs_missing mounts v)) kvs"
| "mapping_miss fs mounts v = False"

text \<open>
  Tree shape: the same keys in the same order at every level, mappings only where
  mappings were, sequences of the same length where sequences were. \<open>dict_depth\<close> is
  the nesting depth of mappings, and \<open>other_leaves_kept\<close> says that every leaf not
  treated as a path is returned as it was.
\<close>

fun same_shape :: "pyval \<Rightarrow> pyval \<Rightarrow> bool" where
  "same_shape (PDict kvs) w =
     (case w of
        PDict kvs' \<Rightarrow>
          list_all2 (\<lambda>kv kv'. fst kv' = fst kv \<and> same_shape (snd kv) (snd kv')) kvs kvs'
      | _ \<Rightarrow> False)"
| "same_shape (PSeq kind xs) w =
     (case w of PSeq kind' ys \<Rightarrow> length ys = length xs | _ \<Rightarrow> False)"
| "same_shape v w = (case w of PDict kvs' \<Rightarrow> False | PSeq kind' ys \<Rightarrow> False | _ \<Rightarrow> True)"

fun dict_depth :: "pyval \<Rightarrow> nat" where
  "dict_depth (PDict kvs) = Suc (foldr max (map (\<lambda>kv. dict_depth (snd kv)) kvs) 0)"
| "dict_depth v = 0"

fun other_leaves_kept :: "hostfs \<Rightarrow> pyval \<Rightarrow> pyval \<Rightarrow> bool" where
  "other_leaves_kept fs (PDict kvs) w =
     (case w of
        PDict kvs' \<Rightarrow>
          list_all2 (\<lambda>kv kv'.
             (case snd kv of
                PDict sub \<Rightarrow> other_leaves_kept fs (snd kv) (snd kv')
              | v \<Rightarrow> path_leaf fs v \<or> snd kv' = v)) kvs kvs'
      | _ \<Rightarrow> False)"
| "other_leaves_kept fs v w = (w = v)"


text \<open>
  A path is under the mount root when it starts with the root and a slash; a value is
  under it when it is such a string, or a sequence whose first element is one.
  \<open>lookup_path\<close> follows a list of keys through nested mappings: it names a field.
\<close>

definition under_root :: "string \<Rightarrow> string \<Rightarrow> bool" where
  "under_root input_dir s = prefix (path_join input_dir []) s"

definition under_val :: "string \<Rightarrow> pyval \<Rightarrow> bool" where
  "under_val input_dir v =
     (case v of
        PStr s \<Rightarrow> under_root input_dir s
      | PSeq kind (PStr s # rest) \<Rightarrow> under_root input_dir s
      | _ \<Rightarrow> False)"

fun lookup_path :: "pyval \<Rightarrow> string list \<Rightarrow> pyval option" where
  "lookup_path v [] = Some v"
| "lookup_path (PDict kvs) (k # ks) =
     (case map_of kvs k of None \<Rightarrow> None | Some w \<Rightarrow> lookup_path w ks)"
| "lookup_path v (k # ks) = None"

text \<open>
  The mount specification \<^verbatim>\<open>prepare_system\<close> emits for a name, and the paths a run
  may create: a resolved directory that was absent, and its ancestors.
\<close>

definition system_mount :: "hostfs \<Rightarrow> string \<Rightarrow> string \<Rightarrow> string \<Rightarrow> string" where
  "system_mount fs datadir docker_biodata_dir d =
     cur_d fs datadir d @ '':'' @ docker_biodata_dir @ ''/'' @ d"

definition created_by :: "hostfs \<Rightarrow> string \<Rightarrow> string list \<Rightarrow> string \<Rightarrow> bool" where
  "created_by fs datadir ds p =
     list_ex (\<lambda>d. \<not> fs_exists fs (cur_d fs datadir d) \<and>
                 (p = cur_d fs datadir d \<or> p \<in> set (path_ancestors (cur_d fs datadir d)))) ds"

section \<open>Properties\<close>

subsection \<open>Evaluations shared by the scenarios\<close>

lemma normpath_sample: "normpath ''/data/run1/sample.bam'' = ''/data/run1/sample.bam''"
  by code_simp
lemma split_sample: "path_split ''/data/run1/sample.bam'' = (''/data/run1'', ''sample.bam'')"
  by code_simp
lemma dirname_sample: "dirname ''/data/run1/sample.bam'' = ''/data/run1''"
  by code_simp
lemma str_nat_0: "str_nat 0 = ''0''"
  by code_simp


subsection \<open>Loops that may raise\<close>

lemma try_map_Inr_iff:
  "try_map h as = Inr bs \<longleftrightarrow> list_all2 (\<lambda>a b. h a = Inr b) as bs"
proof (induction as arbitrary: bs)
  case Nil
  show ?case by auto
next
  case (Cons a as)
  show ?case
    by (cases bs; cases "h a"; cases "try_map h as") (auto simp: Cons.IH [symmetric])
qed

lemma try_map_length: "try_map h as = Inr bs \<Longrightarrow> length bs = length as"
  by (simp add: try_map_Inr_iff list_all2_lengthD)

lemma try_map_nth: "try_map h as = Inr bs \<Longrightarrow> i < length as \<Longrightarrow> h (as ! i) = Inr (bs ! i)"
  by (auto simp: try_map_Inr_iff dest: list_all2_nthD)

subsection \<open>The mount allocation\<close>

lemma slash_notin_str_nat: "CHR ''/'' \<notin> set (str_nat n)"
proof (induction n rule: str_nat.induct)
  case (1 n)
  have d: "\<And>k. k < 10 \<Longrightarrow> CHR ''/'' \<noteq> digit_char k"
  proof -
    fix k :: nat assume "k < 10"
    then have "k \<in> {0,1,2,3,4,5,6,7,8,9}" by auto
    then show "CHR ''/'' \<noteq> digit_char k"
      by (auto simp: digit_char_def)
  qed
  show ?case
  proof (cases "n < 10")
    case True
    then show ?thesis by (subst str_nat.simps) (simp add: d)
  next
    case False
    then show ?thesis using "1" by (subst str_nat.simps) (simp add: d)
  qed
qed

lemma str_nat_not_abs: "\<not> isabs (str_nat n)"
  using slash_notin_str_nat [of n] by (cases "str_nat n") (auto simp: isabs_def)

lemma allocate_mounts_keys: "map fst (allocate_mounts input_dir directories) = sort (remdups directories)"
  by (simp add: allocate_mounts_def split_def comp_def enumerate_eq_zip)

lemma allocate_mounts_nth:
  assumes "i < length (sort (remdups directories))"
  shows "allocate_mounts input_dir directories ! i =
           (sort (remdups directories) ! i, path_join input_dir (str_nat i))"
  using assms by (simp add: allocate_mounts_def nth_enumerate_eq)

lemma allocate_mounts_distinct: "distinct (map fst (allocate_mounts input_dir directories))"
  by (simp add: allocate_mounts_keys)

lemma allocate_mounts_dom: "fst ` set (allocate_mounts input_dir directories) = set directories"
  using allocate_mounts_keys [of input_dir directories]
  by (metis set_map set_remdups set_sort)

lemma allocate_mounts_lookup:
  assumes "i < length (sort (remdups directories))"
  shows "map_of (allocate_mounts input_dir directories) (sort (remdups directories) ! i)
           = Some (path_join input_dir (str_nat i))"
proof -
  have "i < length (allocate_mounts input_dir directories)"
    using assms allocate_mounts_keys [of input_dir directories]
    by (metis length_map)
  then have "allocate_mounts input_dir directories ! i \<in> set (allocate_mounts input_dir directories)"
    by simp
  then show ?thesis
    using allocate_mounts_distinct [of input_dir directories] assms
    by (simp add: allocate_mounts_nth)
qed

subsection \<open>The first loop of \<^verbatim>\<open>update_config\<close>\<close>

lemma absolutize_sample_dirs:
  assumes "absolutize_sample fs fcdir d0 = Inr (d, dirs)"
  shows "get_directories fs d = Inr dirs"
  using assms unfolding absolutize_sample_def
  by (auto split: sum.splits pyval.splits simp: Let_def)

lemma absolutize_details_dirs:
  assumes "absolutize_details fs fcdir ds = Inr (absdetails, directories)"
  shows "\<exists>dss. try_map (get_directories fs) absdetails = Inr dss \<and> directories = concat dss"
proof -
  from assms obtain rs where rs: "try_map (absolutize_sample fs fcdir) ds = Inr rs"
    and a: "absdetails = map fst rs" and d: "directories = concat (map snd rs)"
    by (auto simp: absolutize_details_def split: sum.splits)
  have "list_all2 (\<lambda>d r. absolutize_sample fs fcdir d = Inr r) ds rs"
    using rs by (simp add: try_map_Inr_iff)
  then have "list_all2 (\<lambda>a b. get_directories fs a = Inr b) (map fst rs) (map snd rs)"
    by (induction rule: list_all2_induct) (auto dest: absolutize_sample_dirs)
  then have "try_map (get_directories fs) absdetails = Inr (map snd rs)"
    by (simp add: try_map_Inr_iff a)
  with d show ?thesis by blast
qed

subsection \<open>The remap pass\<close>

lemma remap_directories_dict:
  "remap_directories fs (PDict kvs) mounts =
     (case try_map (remap_entry fs mounts) kvs of Inl e \<Rightarrow> Inl e | Inr out \<Rightarrow> Inr (PDict out))"
  unfolding remap_entry_def by simp

declare remap_directories.simps(1) [simp del]

declare get_directories.simps(1) [simp del]

lemma try_map_Inl:
  "a \<in> set as \<Longrightarrow> h a = Inl e \<Longrightarrow> \<exists>e'. try_map h as = Inl e'"
  by (induction as) (auto split: sum.splits)

lemma remap_path_miss:
  "map_of mounts (dirname s) = None \<Longrightarrow> remap_path mounts (PStr s) = Inl KeyError"
  by (simp add: remap_path_def dirname_def)

lemma same_shape_refl: "same_shape v v"
proof (induction v rule: dict_depth.induct)
  case (1 kvs)
  then show ?case by (simp add: list_all2_same)
qed simp_all

lemma remap_path_str: "remap_path mounts x = Inr r \<Longrightarrow> \<exists>s'. r = PStr s'"
  by (auto simp: remap_path_def split: pyval.splits option.splits)

lemma same_shape_depth: "same_shape v w \<Longrightarrow> dict_depth w = dict_depth v"
proof (induction v w rule: same_shape.induct)
  case (1 kvs w)
  then obtain kvs' where w: "w = PDict kvs'"
    and rel: "list_all2 (\<lambda>kv kv'. fst kv' = fst kv \<and> same_shape (snd kv) (snd kv')) kvs kvs'"
    by (auto split: pyval.splits)
  have "list_all2 (\<lambda>kv kv'. dict_depth (snd kv') = dict_depth (snd kv)) kvs kvs'"
    using rel "1.IH" w
    by (rule_tac list.rel_mono_strong [OF rel]) auto
  then have "map (\<lambda>kv. dict_depth (snd kv)) kvs' = map (\<lambda>kv. dict_depth (snd kv)) kvs"
    by (induction rule: list_all2_induct) simp_all
  then show ?case by (simp add: w)
qed (auto split: pyval.splits)

lemma remap_entry_elim:
  assumes e: "remap_entry fs mounts kv = Inr kv'"
  obtains
    (dict) sub where "snd kv = PDict sub"
      and "remap_directories fs (snd kv) mounts = Inr (snd kv')" and "fst kv' = fst kv"
  | (kept) "\<forall>sub. snd kv \<noteq> PDict sub" and "\<not> path_leaf fs (snd kv)" and "kv' = kv"
  | (str) s s' where "snd kv = PStr s" and "path_leaf fs (snd kv)"
      and "remap_path mounts (PStr s) = Inr (PStr s')" and "kv' = (fst kv, PStr s')"
  | (seq) kind xs ys where "snd kv = PSeq kind xs" and "path_leaf fs (snd kv)"
      and "try_map (remap_path mounts) xs = Inr ys" and "kv' = (fst kv, PSeq ListSeq ys)"
proof (cases "snd kv")
  case PNone
  with e have "kv' = kv" by (simp add: remap_entry_def)
  with PNone kept show ?thesis by (simp add: path_leaf_def)
next
  case (PBool b)
  with e have "kv' = kv" by (simp add: remap_entry_def)
  with PBool kept show ?thesis by (simp add: path_leaf_def)
next
  case (PInt i)
  with e have "kv' = kv" by (simp add: remap_entry_def)
  with PInt kept show ?thesis by (simp add: path_leaf_def)
next
  case (PFloat a b)
  with e have "kv' = kv" by (simp add: remap_entry_def)
  with PFloat kept show ?thesis by (simp add: path_leaf_def)
next
  case (PStr s)
  show ?thesis
  proof (cases "s \<noteq> [] \<and> fs_exists fs s \<and> isabs s")
    case True
    with e PStr obtain r where r: "remap_path mounts (PStr s) = Inr r" and k: "kv' = (fst kv, r)"
      by (auto simp: remap_entry_def split: sum.splits)
    from remap_path_str [OF r] obtain s' where "r = PStr s'" by blast
    with r k PStr True str [of s s'] show ?thesis by (simp add: path_leaf_def)
  next
    case False
    with e PStr have "kv' = kv" by (auto simp: remap_entry_def)
    with PStr False kept show ?thesis by (simp add: path_leaf_def)
  qed
next
  case (PSeq kind xs)
  show ?thesis
  proof (cases xs)
    case Nil
    with e PSeq have "kv' = kv" by (simp add: remap_entry_def)
    with PSeq Nil kept show ?thesis by (simp add: path_leaf_def)
  next
    case (Cons x0 rest)
    with e PSeq obtain ex where ex: "py_exists fs x0 = Inr ex"
      by (auto simp: remap_entry_def split: sum.splits)
    show ?thesis
    proof (cases ex)
      case True
      with e PSeq Cons ex obtain ys where ys: "try_map (remap_path mounts) xs = Inr ys"
        and k: "kv' = (fst kv, PSeq ListSeq ys)"
        by (auto simp: remap_entry_def split: sum.splits)
      from PSeq Cons ex True have "path_leaf fs (snd kv)"
        by (simp add: path_leaf_def)
      with PSeq ys k seq [of kind xs ys] show ?thesis by simp
    next
      case False
      with e PSeq Cons ex have k: "kv' = kv" by (simp add: remap_entry_def)
      from PSeq Cons ex False have "\<not> path_leaf fs (snd kv)"
        by (simp add: path_leaf_def)
      with PSeq k kept show ?thesis by simp
    qed
  qed
next
  case (PDict sub)
  with e obtain r where "remap_directories fs (snd kv) mounts = Inr r" and "kv' = (fst kv, r)"
    by (auto simp: remap_entry_def split: sum.splits)
  with PDict dict [of sub] show ?thesis by simp
qed

lemma remap_same_shape:
  "remap_directories fs xs mounts = Inr out \<Longrightarrow> same_shape xs out"
proof (induction fs xs mounts arbitrary: out rule: remap_directories.induct)
  case (1 fs kvs mounts)
  from "1.prems" obtain kvs' where out: "out = PDict kvs'"
    and tm: "try_map (remap_entry fs mounts) kvs = Inr kvs'"
    unfolding remap_directories_dict by (auto split: sum.splits)
  from tm have rel: "list_all2 (\<lambda>kv kv'. remap_entry fs mounts kv = Inr kv') kvs kvs'"
    by (simp add: try_map_Inr_iff)
  let ?Q = "\<lambda>kv kv'. fst kv' = fst kv \<and> same_shape (snd kv) (snd kv')"
  have "?Q kv kv'" if kv: "kv \<in> set kvs" and e: "remap_entry fs mounts kv = Inr kv'" for kv kv'
    using e
  proof (cases rule: remap_entry_elim)
    case (dict sub)
    from "1.IH" [OF kv dict(1) dict(2)] dict(3) show ?thesis by simp
  next
    case kept
    then show ?thesis by (simp add: same_shape_refl)
  next
    case (str s s')
    then show ?thesis by simp
  next
    case (seq kind xs ys)
    from try_map_length [OF seq(3)] seq(1,4) show ?thesis by simp
  qed
  with rel have "list_all2 ?Q kvs kvs'"
    by (simp add: list_all2_conv_all_nth)
  then show ?case by (simp add: out)
qed (simp_all add: same_shape_refl)

lemma remap_other_leaves_kept:
  "remap_directories fs xs mounts = Inr out \<Longrightarrow> other_leaves_kept fs xs out"
proof (induction fs xs mounts arbitrary: out rule: remap_directories.induct)
  case (1 fs kvs mounts)
  from "1.prems" obtain kvs' where out: "out = PDict kvs'"
    and tm: "try_map (remap_entry fs mounts) kvs = Inr kvs'"
    unfolding remap_directories_dict by (auto split: sum.splits)
  from tm have rel: "list_all2 (\<lambda>kv kv'. remap_entry fs mounts kv = Inr kv') kvs kvs'"
    by (simp add: try_map_Inr_iff)
  let ?Q = "\<lambda>kv kv'.
             (case snd kv of
                PDict sub \<Rightarrow> other_leaves_kept fs (snd kv) (snd kv')
              | v \<Rightarrow> path_leaf fs v \<or> snd kv' = v)"
  have "?Q kv kv'" if kv: "kv \<in> set kvs" and e: "remap_entry fs mounts kv = Inr kv'" for kv kv'
    using e
  proof (cases rule: remap_entry_elim)
    case (dict sub)
    from "1.IH" [OF kv dict(1) dict(2)] dict(1) show ?thesis by simp
  next
    case kept
    then show ?thesis by (cases "snd kv") simp_all
  next
    case (str s s')
    then show ?thesis by simp
  next
    case (seq kind xs ys)
    then show ?thesis by simp
  qed
  with rel have "list_all2 ?Q kvs kvs'"
    by (simp add: list_all2_conv_all_nth)
  then show ?case by (simp add: out)
qed simp_all


subsection \<open>The loop of \<^verbatim>\<open>prepare_system\<close>\<close>

lemma makedirs_ok:
  assumes "\<not> fs_exists fs p" and "\<not> fs_mkdir_denied fs p"
  shows "\<exists>fs'. makedirs fs p = Inr fs' \<and> fs_realpath fs' = fs_realpath fs \<and>
           fs_mkdir_denied fs' = fs_mkdir_denied fs \<and>
           (\<forall>q. fs_exists fs' q \<longleftrightarrow> q = p \<or> q \<in> set (path_ancestors p) \<or> fs_exists fs q)"
  using assms by (simp add: makedirs_def)

lemma cur_d_cong: "fs_realpath fs' = fs_realpath fs \<Longrightarrow> cur_d fs' datadir d = cur_d fs datadir d"
  by (simp add: cur_d_def)

lemma prepare_loop_noop:
  assumes "\<forall>d \<in> set ds. fs_exists fs (cur_d fs datadir d)"
  shows "prepare_loop datadir bio ds (mounts, fs)
           = Inr (mounts @ map (system_mount fs datadir bio) ds, fs)"
  using assms by (induction ds arbitrary: mounts) (simp_all add: Let_def system_mount_def)

lemma prepare_loop_ok:
  assumes "\<forall>d \<in> set ds. \<not> fs_mkdir_denied fs (cur_d fs datadir d)"
  shows "\<exists>fs'. prepare_loop datadir bio ds (mounts, fs)
                 = Inr (mounts @ map (system_mount fs datadir bio) ds, fs') \<and>
           fs_realpath fs' = fs_realpath fs \<and>
           fs_mkdir_denied fs' = fs_mkdir_denied fs \<and>
           (\<forall>p. fs_exists fs p \<longrightarrow> fs_exists fs' p) \<and>
           (\<forall>d \<in> set ds. fs_exists fs' (cur_d fs datadir d)) \<and>
           (\<forall>p. fs_exists fs' p \<longrightarrow> fs_exists fs p \<or> created_by fs datadir ds p)"
  using assms
proof (induction ds arbitrary: mounts fs)
  case Nil
  then show ?case by (simp add: created_by_def)
next
  case (Cons d ds)
  let ?c = "cur_d fs datadir d"
  show ?case
  proof (cases "fs_exists fs ?c")
    case True
    from Cons.prems have "\<forall>d \<in> set ds. \<not> fs_mkdir_denied fs (cur_d fs datadir d)" by simp
    from Cons.IH [OF this, of "mounts @ [system_mount fs datadir bio d]"]
    obtain fs' where
      l: "prepare_loop datadir bio ds (mounts @ [system_mount fs datadir bio d], fs)
            = Inr ((mounts @ [system_mount fs datadir bio d]) @ map (system_mount fs datadir bio) ds, fs')"
      and r: "fs_realpath fs' = fs_realpath fs" and m: "fs_mkdir_denied fs' = fs_mkdir_denied fs"
      and mono: "\<forall>p. fs_exists fs p \<longrightarrow> fs_exists fs' p"
      and ex: "\<forall>d \<in> set ds. fs_exists fs' (cur_d fs datadir d)"
      and fr: "\<forall>p. fs_exists fs' p \<longrightarrow> fs_exists fs p \<or> created_by fs datadir ds p"
      by blast
    have "prepare_loop datadir bio (d # ds) (mounts, fs)
            = Inr (mounts @ map (system_mount fs datadir bio) (d # ds), fs')"
      using True l by (simp add: Let_def system_mount_def)
    moreover have "\<forall>e \<in> set (d # ds). fs_exists fs' (cur_d fs datadir e)"
      using ex mono True by simp
    moreover have "\<forall>p. fs_exists fs' p \<longrightarrow> fs_exists fs p \<or> created_by fs datadir (d # ds) p"
      using fr by (auto simp: created_by_def)
    ultimately show ?thesis using r m mono by blast
  next
    case False
    from Cons.prems have nd: "\<not> fs_mkdir_denied fs ?c" by simp
    from makedirs_ok [OF False nd] obtain fs1 where
      mk: "makedirs fs ?c = Inr fs1" and r1: "fs_realpath fs1 = fs_realpath fs"
      and m1: "fs_mkdir_denied fs1 = fs_mkdir_denied fs"
      and x1: "\<forall>q. fs_exists fs1 q \<longleftrightarrow> q = ?c \<or> q \<in> set (path_ancestors ?c) \<or> fs_exists fs q"
      by blast
    have c1: "\<And>e. cur_d fs1 datadir e = cur_d fs datadir e"
      using r1 by (rule cur_d_cong)
    have s1: "system_mount fs1 datadir bio = system_mount fs datadir bio"
      by (simp add: system_mount_def c1 fun_eq_iff)
    from Cons.prems have "\<forall>d \<in> set ds. \<not> fs_mkdir_denied fs1 (cur_d fs1 datadir d)"
      by (simp add: m1 c1)
    from Cons.IH [OF this, of "mounts @ [system_mount fs datadir bio d]"]
    obtain fs' where
      l: "prepare_loop datadir bio ds (mounts @ [system_mount fs datadir bio d], fs1)
            = Inr ((mounts @ [system_mount fs datadir bio d]) @ map (system_mount fs datadir bio) ds, fs')"
      and r: "fs_realpath fs' = fs_realpath fs" and m: "fs_mkdir_denied fs' = fs_mkdir_denied fs"
      and mono: "\<forall>p. fs_exists fs1 p \<longrightarrow> fs_exists fs' p"
      and ex: "\<forall>d \<in> set ds. fs_exists fs' (cur_d fs datadir d)"
      and fr: "\<forall>p. fs_exists fs' p \<longrightarrow> fs_exists fs1 p \<or> created_by fs1 datadir ds p"
      unfolding s1 r1 m1 c1 by blast
    have "prepare_loop datadir bio (d # ds) (mounts, fs)
            = Inr (mounts @ map (system_mount fs datadir bio) (d # ds), fs')"
      using False mk l by (simp add: Let_def system_mount_def)
    moreover have "\<forall>p. fs_exists fs p \<longrightarrow> fs_exists fs' p"
      using mono x1 by simp
    moreover have "\<forall>e \<in> set (d # ds). fs_exists fs' (cur_d fs datadir e)"
      using ex mono x1 by simp
    moreover have "fs_exists fs' p \<longrightarrow> fs_exists fs p \<or> created_by fs datadir (d # ds) p" for p
    proof
      assume "fs_exists fs' p"
      with fr have "fs_exists fs1 p \<or> created_by fs1 datadir ds p" by simp
      moreover have "created_by fs1 datadir ds p \<longrightarrow> created_by fs datadir ds p"
        by (auto simp: created_by_def list_ex_iff c1 x1)
      ultimately show "fs_exists fs p \<or> created_by fs datadir (d # ds) p"
        using x1 False by (auto simp: created_by_def)
    qed
    ultimately show ?thesis using r m by blast
  qed
qed

subsection \<open>Looking a key up after each pass\<close>

lemma abs_file_paths_dict:
  "fst (abs_file_paths fs (PDict kvs) base_dirs ignore) =
     (case try_map (abs_entry fs (resolve_dirs fs base_dirs) ignore) kvs of
        Inl e \<Rightarrow> Inl e
      | Inr out \<Rightarrow> Inr (PDict out))"
  by (simp add: abs_file_paths_def resolve_dirs_def split: option.splits list.splits sum.splits)

lemma abs_file_paths_other:
  "(\<forall>kvs. xs \<noteq> PDict kvs) \<Longrightarrow> fst (abs_file_paths fs xs base_dirs ignore) = Inr xs"
  by (cases xs) (simp_all add: abs_file_paths_def)

lemma abs_file_paths_no_mapping:
  "(\<forall>kvs. xs \<noteq> PDict kvs) \<Longrightarrow> abs_file_paths fs xs base_dirs ignore = (Inr xs, base_dirs)"
  by (cases xs) (simp_all add: abs_file_paths_def)

lemma try_map_lookup:
  assumes "try_map h kvs = Inr out"
    and "\<And>kv kv'. h kv = Inr kv' \<Longrightarrow> fst kv' = fst kv"
    and "map_of kvs k = Some v"
  shows "\<exists>v'. h (k, v) = Inr (k, v') \<and> map_of out k = Some v'"
  using assms(1,3)
proof (induction kvs arbitrary: out)
  case Nil
  then show ?case by simp
next
  case (Cons kv kvs)
  from Cons.prems(1) obtain kv' out' where h: "h kv = Inr kv'"
    and t: "try_map h kvs = Inr out'" and o: "out = kv' # out'"
    by (auto split: sum.splits)
  from assms(2) [OF h] have f: "fst kv' = fst kv" .
  show ?case
  proof (cases "fst kv = k")
    case True
    with Cons.prems(2) have "kv = (k, v)" by (cases kv) simp
    with h f o show ?thesis by (cases kv') auto
  next
    case False
    with Cons.prems(2) have "map_of kvs k = Some v" by (cases kv) (simp split: if_splits)
    from Cons.IH [OF t this] False f o show ?thesis by (cases kv') auto
  qed
qed

lemma abs_entry_key: "abs_entry fs dirs ignore kv = Inr kv' \<Longrightarrow> fst kv' = fst kv"
  by (cases kv) (auto simp: abs_entry_def split: if_splits pyval.splits list.splits sum.splits)

lemma remap_entry_key: "remap_entry fs mounts kv = Inr kv' \<Longrightarrow> fst kv' = fst kv"
  by (erule remap_entry_elim) simp_all

lemma abs_entry_ignored: "k \<in> set ignore \<Longrightarrow> abs_entry fs dirs ignore (k, v) = Inr (k, v)"
  by (simp add: abs_entry_def)

lemma abs_entry_dict: "abs_entry fs dirs ignore (k, PDict sub) = Inr (k, PDict sub)"
  by (simp add: abs_entry_def)

lemma abs_file_paths_lookup:
  assumes "fst (abs_file_paths fs (PDict kvs) base_dirs ignore) = Inr d"
  shows "\<exists>out. d = PDict out \<and>
           (\<forall>k v. map_of kvs k = Some v \<longrightarrow>
              (\<exists>v'. abs_entry fs (resolve_dirs fs base_dirs) ignore (k, v) = Inr (k, v') \<and>
                    map_of out k = Some v'))"
proof -
  from assms obtain out where d: "d = PDict out"
    and t: "try_map (abs_entry fs (resolve_dirs fs base_dirs) ignore) kvs = Inr out"
    by (auto simp: abs_file_paths_dict split: sum.splits)
  have "\<exists>v'. abs_entry fs (resolve_dirs fs base_dirs) ignore (k, v) = Inr (k, v') \<and>
             map_of out k = Some v'" if "map_of kvs k = Some v" for k v
    using t abs_entry_key that by (rule try_map_lookup)
  with d show ?thesis by simp
qed

lemma remap_directories_lookup:
  assumes "remap_directories fs (PDict kvs) mounts = Inr d"
  shows "\<exists>out. d = PDict out \<and>
           (\<forall>k v. map_of kvs k = Some v \<longrightarrow>
              (\<exists>v'. remap_entry fs mounts (k, v) = Inr (k, v') \<and> map_of out k = Some v'))"
proof -
  from assms [unfolded remap_directories_dict] obtain out where d: "d = PDict out"
    and t: "try_map (remap_entry fs mounts) kvs = Inr out"
    by (auto split: sum.splits)
  have "\<exists>v'. remap_entry fs mounts (k, v) = Inr (k, v') \<and> map_of out k = Some v'"
    if "map_of kvs k = Some v" for k v
    using t remap_entry_key that by (rule try_map_lookup)
  with d show ?thesis by simp
qed

lemma remap_entry_kept:
  assumes "remap_entry fs mounts (k, v) = Inr (k, v')"
    and "\<forall>sub. v \<noteq> PDict sub" and "\<not> path_leaf fs v"
  shows "v' = v"
  using assms(1)
proof (cases rule: remap_entry_elim)
  case (dict sub)
  with assms(2) show ?thesis by simp
qed (use assms in simp_all)

lemma absolutize_sample_dict:
  assumes "absolutize_sample fs fcdir d0 = Inr (d, dirs)"
  shows "\<exists>kvs out alg alg'.
           d0 = PDict kvs \<and>
           fst (abs_file_paths fs (PDict kvs) (fcdir_base_dirs fcdir) top_ignore) = Inr (PDict out) \<and>
           map_of out ''algorithm'' = Some alg \<and>
           fst (abs_file_paths fs alg (fcdir_base_dirs fcdir) algorithm_ignore) = Inr alg' \<and>
           d = PDict (AList.update ''algorithm'' alg' out)"
proof -
  let ?A = "fst (abs_file_paths fs d0 (fcdir_base_dirs fcdir) top_ignore)"
  obtain d1 where a: "?A = Inr d1"
    using assms by (cases ?A) (simp_all add: absolutize_sample_def)
  obtain alg where g: "py_getitem d1 ''algorithm'' = Inr alg"
    using assms a by (cases "py_getitem d1 ''algorithm''") (simp_all add: absolutize_sample_def)
  then obtain out where d1: "d1 = PDict out" and m: "map_of out ''algorithm'' = Some alg"
    by (cases d1) (auto simp: py_getitem_def split: option.splits)
  obtain kvs where d0: "d0 = PDict kvs"
  proof (cases d0)
    case (PDict kvs)
    then show ?thesis using that by simp
  qed (use a d1 in \<open>simp_all add: abs_file_paths_def\<close>)
  let ?B = "fst (abs_file_paths fs alg (fcdir_base_dirs fcdir) algorithm_ignore)"
  obtain alg' where b: "?B = Inr alg'"
    using assms a g by (cases ?B) (simp_all add: absolutize_sample_def)
  have "d = PDict (AList.update ''algorithm'' alg' out)"
    using assms a g b d1
    by (simp add: absolutize_sample_def Let_def split: sum.splits)
  with a d0 d1 m b show ?thesis by blast
qed

lemma update_config_stages:
  assumes "update_config fs fcdir config input_dir = Inr (config', specs)"
  obtains details ds absdetails directories remapped ckvs where
    "py_getitem config ''details'' = Inr details" and "py_iter details = Inr ds"
    and "absolutize_details fs fcdir ds = Inr (absdetails, directories)"
    and "try_map (\<lambda>d. remap_directories fs d (allocate_mounts input_dir directories)) absdetails
           = Inr remapped"
    and "config = PDict ckvs"
    and "config' = PDict (AList.update ''details'' (PSeq ListSeq remapped) ckvs)"
    and "specs = map mount_spec (allocate_mounts input_dir directories)"
  using assms unfolding update_config_def
  by (auto split: sum.splits pyval.splits prod.splits simp: Let_def)

lemma absolutize_details_nth:
  assumes "absolutize_details fs fcdir ds = Inr (absdetails, directories)"
  shows "length absdetails = length ds"
    and "i < length ds \<Longrightarrow> \<exists>dirs. absolutize_sample fs fcdir (ds ! i) = Inr (absdetails ! i, dirs)"
proof -
  from assms obtain rs where rs: "try_map (absolutize_sample fs fcdir) ds = Inr rs"
    and a: "absdetails = map fst rs"
    by (auto simp: absolutize_details_def split: sum.splits)
  from try_map_length [OF rs] a show "length absdetails = length ds" by simp
  assume i: "i < length ds"
  from try_map_nth [OF rs i] have "absolutize_sample fs fcdir (ds ! i) = Inr (rs ! i)" .
  moreover have "fst (rs ! i) = absdetails ! i"
    using i try_map_length [OF rs] a by simp
  ultimately show "\<exists>dirs. absolutize_sample fs fcdir (ds ! i) = Inr (absdetails ! i, dirs)"
    by (metis prod.collapse)
qed

lemma details_after: "py_getitem (PDict (AList.update ''details'' v ckvs)) ''details'' = Inr v"
  by (simp add: py_getitem_def update_conv')

lemma algorithm_not_ignored: "''algorithm'' \<notin> set top_ignore"
  by (simp add: top_ignore_def)

lemma sample_ignored:
  assumes "absolutize_sample fs fcdir (PDict kvs) = Inr (d, dirs)"
  shows "\<exists>abs_kvs. d = PDict abs_kvs \<and>
     (\<forall>k v. k \<in> set top_ignore \<and> map_of kvs k = Some v \<longrightarrow> map_of abs_kvs k = Some v) \<and>
     (\<forall>akvs. map_of kvs ''algorithm'' = Some (PDict akvs) \<longrightarrow>
        (\<exists>abs_akvs. map_of abs_kvs ''algorithm'' = Some (PDict abs_akvs) \<and>
           (\<forall>k v. k \<in> set algorithm_ignore \<and> map_of akvs k = Some v
                  \<longrightarrow> map_of abs_akvs k = Some v)))"
proof -
  from absolutize_sample_dict [OF assms] obtain out alg alg' where
    top: "fst (abs_file_paths fs (PDict kvs) (fcdir_base_dirs fcdir) top_ignore) = Inr (PDict out)"
    and alg: "map_of out ''algorithm'' = Some alg"
    and alg': "fst (abs_file_paths fs alg (fcdir_base_dirs fcdir) algorithm_ignore) = Inr alg'"
    and d: "d = PDict (AList.update ''algorithm'' alg' out)"
    by auto
  let ?dirs = "resolve_dirs fs (fcdir_base_dirs fcdir)"
  from abs_file_paths_lookup [OF top]
  have look: "\<And>k v. map_of kvs k = Some v \<Longrightarrow>
      \<exists>v'. abs_entry fs ?dirs top_ignore (k, v) = Inr (k, v') \<and> map_of out k = Some v'"
    by auto
  have t: "map_of (AList.update ''algorithm'' alg' out) k = Some v"
    if "k \<in> set top_ignore" and "map_of kvs k = Some v" for k v
  proof -
    from look [OF that(2)] that(1) have "map_of out k = Some v"
      by (auto simp: abs_entry_ignored)
    moreover from that(1) have "k \<noteq> ''algorithm''"
      using algorithm_not_ignored by auto
    ultimately show ?thesis by (simp add: update_conv')
  qed
  have a: "\<exists>abs_akvs. map_of (AList.update ''algorithm'' alg' out) ''algorithm'' = Some (PDict abs_akvs) \<and>
           (\<forall>k v. k \<in> set algorithm_ignore \<and> map_of akvs k = Some v
                  \<longrightarrow> map_of abs_akvs k = Some v)"
    if "map_of kvs ''algorithm'' = Some (PDict akvs)" for akvs
  proof -
    from look [OF that] alg have "alg = PDict akvs"
      by (auto simp: abs_entry_dict)
    with abs_file_paths_lookup [of fs akvs "fcdir_base_dirs fcdir" algorithm_ignore alg'] alg'
    obtain aout where ao: "alg' = PDict aout"
      and al: "\<And>k v. map_of akvs k = Some v \<Longrightarrow>
          \<exists>v'. abs_entry fs ?dirs algorithm_ignore (k, v) = Inr (k, v') \<and> map_of aout k = Some v'"
      by auto
    have "map_of aout k = Some v" if "k \<in> set algorithm_ignore" and "map_of akvs k = Some v" for k v
      using al [OF that(2)] that(1) by (auto simp: abs_entry_ignored)
    then show ?thesis by (simp add: ao update_conv')
  qed
  from t a d show ?thesis by blast
qed

lemma remap_sample_kept:
  assumes "remap_directories fs (PDict abs_kvs) mounts = Inr r"
  shows "\<exists>kvs'. r = PDict kvs' \<and>
     (\<forall>k v. map_of abs_kvs k = Some v \<and> (\<forall>sub. v \<noteq> PDict sub) \<and> \<not> path_leaf fs v
            \<longrightarrow> map_of kvs' k = Some v) \<and>
     (\<forall>k sub. map_of abs_kvs k = Some (PDict sub) \<longrightarrow>
        (\<exists>r'. map_of kvs' k = Some r' \<and> remap_directories fs (PDict sub) mounts = Inr r'))"
proof -
  from remap_directories_lookup [OF assms] obtain kvs' where r: "r = PDict kvs'"
    and look: "\<And>k v. map_of abs_kvs k = Some v \<Longrightarrow>
        \<exists>v'. remap_entry fs mounts (k, v) = Inr (k, v') \<and> map_of kvs' k = Some v'"
    by auto
  have 1: "map_of kvs' k = Some v"
    if "map_of abs_kvs k = Some v" and "\<forall>sub. v \<noteq> PDict sub" and "\<not> path_leaf fs v" for k v
    using look [OF that(1)] remap_entry_kept [OF _ that(2,3)] by auto
  have 2: "\<exists>r'. map_of kvs' k = Some r' \<and> remap_directories fs (PDict sub) mounts = Inr r'"
    if "map_of abs_kvs k = Some (PDict sub)" for k sub
  proof -
    from look [OF that] obtain v' where e: "remap_entry fs mounts (k, PDict sub) = Inr (k, v')"
      and m: "map_of kvs' k = Some v'" by auto
    from e have "remap_directories fs (PDict sub) mounts = Inr v'"
      by (cases rule: remap_entry_elim) simp_all
    with m show ?thesis by simp
  qed
  from r 1 2 show ?thesis by blast
qed

lemma remap_sample_str:
  assumes "remap_directories fs (PDict abs_kvs) mounts = Inr (PDict kvs')"
    and "map_of abs_kvs k = Some (PStr s)" and "path_leaf fs (PStr s)"
  shows "\<exists>m. map_of mounts (dirname s) = Some m \<and>
             map_of kvs' k = Some (PStr (path_join m (snd (path_split s))))"
proof -
  from remap_directories_lookup [OF assms(1)] assms(2) obtain v' where
    e: "remap_entry fs mounts (k, PStr s) = Inr (k, v')" and m: "map_of kvs' k = Some v'"
    by auto
  from e assms(3) have "remap_path mounts (PStr s) = Inr v'"
    by (auto simp: remap_entry_def path_leaf_def split: sum.splits)
  then obtain mp where "map_of mounts (dirname s) = Some mp"
    and "v' = PStr (path_join mp (snd (path_split s)))"
    by (auto simp: remap_path_def dirname_def split: option.splits)
  with m show ?thesis by simp
qed

subsection \<open>Values under the mount root\<close>

lemma basename_not_abs: "\<not> isabs (snd (path_split s))"
proof -
  have "CHR ''/'' \<notin> set (rev (takeWhile (\<lambda>c. c \<noteq> CHR ''/'') (rev s)))"
    by (auto dest: set_takeWhileD)
  then show ?thesis
    by (cases "rev (takeWhile (\<lambda>c. c \<noteq> CHR ''/'') (rev s))")
       (auto simp: path_split_def isabs_def Let_def)
qed

lemma path_join_empty: "path_join [] s = s"
  by (cases "isabs s") (simp_all add: path_join_def)

lemma path_join_rel: "\<not> isabs b \<Longrightarrow> path_join a b = path_join a [] @ b"
  by (simp add: path_join_def isabs_def)

lemma path_join_Nil_idem: "path_join (path_join a [] @ d) [] = path_join a [] @ d @ (if d = [] \<or> last d = CHR ''/'' then [] else ''/'')"
  by (auto simp: path_join_def isabs_def)

lemma under_root_mount:
  assumes "\<not> isabs base"
  shows "under_root input_dir (path_join (path_join input_dir (str_nat i)) base)"
proof -
  have 1: "path_join input_dir (str_nat i) = path_join input_dir [] @ str_nat i"
    by (rule path_join_rel) (rule str_nat_not_abs)
  have "path_join (path_join input_dir [] @ str_nat i) base
          = path_join (path_join input_dir [] @ str_nat i) [] @ base"
    using assms by (rule path_join_rel)
  then show ?thesis
    by (simp add: under_root_def 1 path_join_Nil_idem)
qed

lemma allocate_mounts_values:
  assumes "map_of (allocate_mounts input_dir directories) d = Some m"
  shows "\<exists>i. m = path_join input_dir (str_nat i)"
proof -
  from assms have "(d, m) \<in> set (allocate_mounts input_dir directories)"
    by (rule map_of_SomeD)
  then show ?thesis
    by (auto simp: allocate_mounts_def)
qed

lemma remap_path_under:
  assumes "remap_path (allocate_mounts input_dir directories) x = Inr (PStr s')"
  shows "under_root input_dir s'"
proof -
  from assms obtain s where "x = PStr s"
    by (cases x) (simp_all add: remap_path_def)
  with assms obtain m where m: "map_of (allocate_mounts input_dir directories) (fst (path_split s)) = Some m"
    and s': "s' = path_join m (snd (path_split s))"
    by (auto simp: remap_path_def split: option.splits)
  from allocate_mounts_values [OF m] obtain i where "m = path_join input_dir (str_nat i)" by blast
  with s' under_root_mount [OF basename_not_abs] show ?thesis by simp
qed

lemma lookup_path_Cons:
  assumes "lookup_path t (k # ks) = Some v"
  obtains kvs w where "t = PDict kvs" and "map_of kvs k = Some w" and "lookup_path w ks = Some v"
  using assms by (cases t) (auto split: option.splits)

lemma under_val_not_dict: "under_val input_dir v \<Longrightarrow> v \<noteq> PDict sub"
  by (auto simp: under_val_def)

lemma under_val_cases:
  assumes "under_val input_dir v"
  obtains (str) s where "v = PStr s" and "under_root input_dir s"
  | (seq) kind s rest where "v = PSeq kind (PStr s # rest)" and "under_root input_dir s"
proof (cases v)
  case (PStr s)
  with assms str show ?thesis by (simp add: under_val_def)
next
  case (PSeq kind xs)
  show ?thesis
  proof (cases xs)
    case Nil
    with assms PSeq show ?thesis by (simp add: under_val_def)
  next
    case (Cons x rest)
    with assms PSeq seq show ?thesis by (cases x) (simp_all add: under_val_def)
  qed
qed (use assms in \<open>simp_all add: under_val_def\<close>)

lemma normalize_path_none:
  "\<forall>b \<in> set dirs. \<not> fs_exists fs (path_join b s) \<Longrightarrow> normalize_path fs (PStr s) dirs = Inr None"
  by (induction dirs) simp_all

lemma abs_entry_under:
  assumes "under_val input_dir v"
    and "\<forall>s. under_root input_dir s \<longrightarrow> (\<forall>b \<in> set dirs. \<not> fs_exists fs (path_join b s))"
  shows "abs_entry fs dirs ignore (k, v) = Inr (k, v)"
  using assms(1)
proof (cases rule: under_val_cases)
  case (str s)
  with assms(2) have "normalize_path fs (PStr s) dirs = Inr None"
    by (simp add: normalize_path_none)
  with str show ?thesis by (simp add: abs_entry_def truthy_path_def)
next
  case (seq kind s rest)
  with assms(2) have "normalize_path fs (PStr s) dirs = Inr None"
    by (simp add: normalize_path_none)
  with seq show ?thesis by (simp add: abs_entry_def truthy_path_def)
qed

lemma remap_entry_under:
  assumes "under_val input_dir v"
    and "\<forall>s. under_root input_dir s \<longrightarrow> \<not> fs_exists fs s"
  shows "remap_entry fs mounts (k, v) = Inr (k, v)"
  using assms(1)
proof (cases rule: under_val_cases)
  case (str s)
  with assms(2) show ?thesis by (simp add: remap_entry_def)
next
  case (seq kind s rest)
  with assms(2) show ?thesis by (simp add: remap_entry_def py_exists_def)
qed

lemma abs_dict_path:
  assumes a: "fst (abs_file_paths fs (PDict kvs) base_dirs ignore) = Inr d"
    and h: "\<forall>s. under_root input_dir s \<longrightarrow>
              (\<forall>b \<in> set (resolve_dirs fs base_dirs). \<not> fs_exists fs (path_join b s))"
    and l: "lookup_path (PDict kvs) ks = Some v" and u: "under_val input_dir v"
  shows "lookup_path d ks = Some v"
proof (cases ks)
  case Nil
  with l have "v = PDict kvs" by simp
  with under_val_not_dict [OF u, of kvs] show ?thesis by simp
next
  case (Cons k rest)
  with l obtain w where w: "map_of kvs k = Some w" and lw: "lookup_path w rest = Some v"
    by (auto split: option.splits)
  from abs_file_paths_lookup [OF a] w obtain out w' where d: "d = PDict out"
    and e: "abs_entry fs (resolve_dirs fs base_dirs) ignore (k, w) = Inr (k, w')"
    and o: "map_of out k = Some w'"
    by blast
  have "w' = w"
  proof (cases rest)
    case Nil
    with lw have "w = v" by simp
    with abs_entry_under [OF u h] e show ?thesis by simp
  next
    case (Cons k' rest')
    with lw obtain sub where "w = PDict sub" by (auto elim: lookup_path_Cons)
    with e show ?thesis by (simp add: abs_entry_dict)
  qed
  with d o lw Cons show ?thesis by simp
qed

lemma sample_path:
  assumes s: "absolutize_sample fs fcdir d0 = Inr (d, dirs)"
    and h: "\<forall>s. under_root input_dir s \<longrightarrow>
              (\<forall>b \<in> set (resolve_dirs fs (fcdir_base_dirs fcdir)). \<not> fs_exists fs (path_join b s))"
    and l: "lookup_path d0 ks = Some v" and u: "under_val input_dir v"
  shows "lookup_path d ks = Some v"
proof -
  from absolutize_sample_dict [OF s] obtain kvs out alg alg' where
    d0: "d0 = PDict kvs"
    and top: "fst (abs_file_paths fs (PDict kvs) (fcdir_base_dirs fcdir) top_ignore) = Inr (PDict out)"
    and alg: "map_of out ''algorithm'' = Some alg"
    and alg': "fst (abs_file_paths fs alg (fcdir_base_dirs fcdir) algorithm_ignore) = Inr alg'"
    and d: "d = PDict (AList.update ''algorithm'' alg' out)"
    by auto
  from abs_dict_path [OF top h] l u d0 have lo: "lookup_path (PDict out) ks = Some v" by simp
  show ?thesis
  proof (cases ks)
    case Nil
    with l d0 have "v = PDict kvs" by simp
    with under_val_not_dict [OF u, of kvs] show ?thesis by simp
  next
    case (Cons k rest)
    with lo obtain w where w: "map_of out k = Some w" and lw: "lookup_path w rest = Some v"
      by (auto split: option.splits)
    show ?thesis
    proof (cases "k = ''algorithm''")
      case False
      with w lw Cons d show ?thesis by (simp add: update_conv')
    next
      case True
      with w alg have wa: "w = alg" by simp
      have "lookup_path alg' rest = Some v"
      proof (cases alg)
        case (PDict akvs)
        with abs_dict_path [OF _ h _ u, of akvs algorithm_ignore alg' rest] alg' lw wa
        show ?thesis by simp
      qed (use alg' lw wa in \<open>simp_all add: abs_file_paths_other\<close>)
      with True Cons d show ?thesis by (simp add: update_conv')
    qed
  qed
qed

lemma remap_stable_path:
  assumes "remap_directories fs t mounts = Inr t'"
    and h: "\<forall>s. under_root input_dir s \<longrightarrow> \<not> fs_exists fs s"
    and "lookup_path t ks = Some v" and u: "under_val input_dir v"
  shows "lookup_path t' ks = Some v"
  using assms(1,3)
proof (induction ks arbitrary: t t')
  case Nil
  then have "t = v" by simp
  with u Nil.prems(1) have "t' = v"
    by (cases rule: under_val_cases) simp_all
  then show ?case by simp
next
  case (Cons k rest)
  from Cons.prems(2) obtain kvs w where t: "t = PDict kvs" and w: "map_of kvs k = Some w"
    and lw: "lookup_path w rest = Some v"
    by (rule lookup_path_Cons)
  from remap_directories_lookup [OF Cons.prems(1) [unfolded t]] w obtain out w' where
    t': "t' = PDict out" and e: "remap_entry fs mounts (k, w) = Inr (k, w')"
    and o: "map_of out k = Some w'"
    by blast
  have "lookup_path w' rest = Some v"
  proof (cases "\<exists>sub. w = PDict sub")
    case True
    with e have "remap_directories fs w mounts = Inr w'"
      by (cases rule: remap_entry_elim) auto
    from Cons.IH [OF this lw] show ?thesis .
  next
    case False
    with lw have "rest = []" and "w = v"
      by (cases rest; cases w; simp)+
    with remap_entry_under [OF u h] e lw show ?thesis by simp
  qed
  with t' o show ?case by simp
qed

lemma try_map_Cons:
  assumes "try_map h (a # as) = Inr bs"
  obtains b bs' where "h a = Inr b" and "try_map h as = Inr bs'" and "bs = b # bs'"
  using assms by (auto split: sum.splits)

lemma remap_leaf_path:
  assumes "remap_directories fs t (allocate_mounts input_dir directories) = Inr t'"
    and "lookup_path t ks = Some v" and p: "path_leaf fs v" and "ks \<noteq> []"
  shows "\<exists>v1. lookup_path t' ks = Some v1 \<and> under_val input_dir v1"
  using assms(1,2,4)
proof (induction ks arbitrary: t t')
  case Nil
  then show ?case by simp
next
  case (Cons k rest)
  let ?mounts = "allocate_mounts input_dir directories"
  from Cons.prems(2) obtain kvs w where t: "t = PDict kvs" and w: "map_of kvs k = Some w"
    and lw: "lookup_path w rest = Some v"
    by (rule lookup_path_Cons)
  from remap_directories_lookup [OF Cons.prems(1) [unfolded t]] w obtain out w' where
    t': "t' = PDict out" and e: "remap_entry fs ?mounts (k, w) = Inr (k, w')"
    and o: "map_of out k = Some w'"
    by blast
  have "\<exists>v1. lookup_path w' rest = Some v1 \<and> under_val input_dir v1"
  proof (cases rest)
    case Nil
    with lw have wv: "w = v" by simp
    from e show ?thesis
    proof (cases rule: remap_entry_elim)
      case (dict sub)
      with wv p show ?thesis by (simp add: path_leaf_def)
    next
      case kept
      with wv p show ?thesis by simp
    next
      case (str s s')
      from remap_path_under [OF str(3)] str(4) Nil show ?thesis
        by (simp add: under_val_def)
    next
      case (seq kind xs ys)
      from seq(1,2) obtain x0 xs' where xs: "xs = x0 # xs'"
        by (cases xs) (simp_all add: path_leaf_def)
      from seq(3) [unfolded xs] obtain y ys' where y: "remap_path ?mounts x0 = Inr y"
        and ys: "ys = y # ys'"
        by (rule try_map_Cons)
      from remap_path_str [OF y] obtain s' where s': "y = PStr s'" by blast
      from remap_path_under [OF y [unfolded s']] seq(4) ys s' Nil show ?thesis
        by (simp add: under_val_def)
    qed
  next
    case (Cons k' rest')
    with lw obtain sub where ws: "w = PDict sub" by (auto elim: lookup_path_Cons)
    with e have "remap_directories fs w ?mounts = Inr w'"
      by (cases rule: remap_entry_elim) auto
    from Cons.IH [OF this lw] Cons show ?thesis by simp
  qed
  with t' o show ?case by simp
qed

subsection \<open>The pipeline on Scenario A\<close>

text \<open>
  C1. On a host where \<^verbatim>\<open>/data/run1/sample.bam\<close> exists and is no symbolic link, and
  where \<^verbatim>\<open>bwa\<close> names no file under the base directory or the working directory,
  \<^verbatim>\<open>update_config\<close> with \<^verbatim>\<open>fcdir = /data/run1\<close> and mount root \<^verbatim>\<open>/mnt/in\<close>
  returns the configuration with \<^verbatim>\<open>files\<close> rewritten to \<^verbatim>\<open>/mnt/in/0/sample.bam\<close>, the
  \<^verbatim>\<open>algorithm\<close> block unchanged, and the mount list \<^verbatim>\<open>["/data/run1:/mnt/in/0"]\<close>.
\<close>

theorem scenario_A:
  assumes ex: "fs_exists fs ''/data/run1/sample.bam''"
      and rp: "fs_realpath fs ''/data/run1/sample.bam'' = ''/data/run1/sample.bam''"
      and nb: "\<not> fs_exists fs ''/data/run1/bwa''"
      and nc: "\<not> fs_exists fs (path_join (fs_cwd fs) ''bwa'')"
  shows "update_config fs (Some ''/data/run1'') scenario_config ''/mnt/in'' =
     Inr (PDict [(''details'',
            PSeq ListSeq
              [PDict [(''files'', PStr ''/mnt/in/0/sample.bam''),
                      (''algorithm'', PDict [(''aligner'', PStr ''bwa'')])]])],
          [''/data/run1:/mnt/in/0''])"
proof -
  have j1: "path_join ''/data/run1'' ''sample.bam'' = ''/data/run1/sample.bam''"
    by code_simp
  have j2: "path_join ''/data/run1'' ''bwa'' = ''/data/run1/bwa''"
    by code_simp
  have j3: "path_join ''/mnt/in'' ''0'' = ''/mnt/in/0''" by code_simp
  have j4: "path_join ''/mnt/in/0'' ''sample.bam'' = ''/mnt/in/0/sample.bam''" by code_simp
  have ab: "isabs ''/data/run1/sample.bam''" by code_simp
  have nab: "\<not> isabs ''bwa''" by code_simp
  have top: "fst (abs_file_paths fs (PDict [(''files'', PStr ''sample.bam''),
                 (''algorithm'', PDict [(''aligner'', PStr ''bwa'')])]) (fcdir_base_dirs (Some ''/data/run1'')) top_ignore)
       = Inr (PDict [(''files'', PStr ''/data/run1/sample.bam''),
                 (''algorithm'', PDict [(''aligner'', PStr ''bwa'')])])"
    using ex rp by (simp add: abs_file_paths_def fcdir_base_dirs_def abs_entry_def top_ignore_def j1
       truthy_path_def path_value_def normpath_sample)
  have alg: "fst (abs_file_paths fs (PDict [(''aligner'', PStr ''bwa'')]) (fcdir_base_dirs (Some ''/data/run1'')) algorithm_ignore)
       = Inr (PDict [(''aligner'', PStr ''bwa'')])"
    using nb nc by (simp add: abs_file_paths_def fcdir_base_dirs_def abs_entry_def algorithm_ignore_def j2
       truthy_path_def path_value_def)
  have samp: "absolutize_sample fs (Some ''/data/run1'') (PDict [(''files'', PStr ''sample.bam''),
                 (''algorithm'', PDict [(''aligner'', PStr ''bwa'')])])
       = Inr (PDict [(''files'', PStr ''/data/run1/sample.bam''),
                 (''algorithm'', PDict [(''aligner'', PStr ''bwa'')])], [''/data/run1''])"
    unfolding absolutize_sample_def top
    using ex by (simp add: py_getitem_def alg ab nab dirname_sample get_directories.simps)
  have mounts: "allocate_mounts ''/mnt/in'' [''/data/run1''] = [(''/data/run1'', ''/mnt/in/0'')]"
    by (simp add: allocate_mounts_def enumerate_eq_zip str_nat_0 j3)
  show ?thesis
    unfolding update_config_def scenario_config_def  
    using ex by (simp add: py_getitem_def py_iter_def absolutize_details_def samp mounts ab nab remap_directories.simps
         remap_path_def split_sample j4 mount_spec_def)
qed

theorem scenario_A_witness:
  "fs_exists scenario_fs ''/data/run1/sample.bam'' \<and>
   update_config scenario_fs (Some ''/data/run1'') scenario_config ''/mnt/in'' =
     Inr (PDict [(''details'',
            PSeq ListSeq
              [PDict [(''files'', PStr ''/mnt/in/0/sample.bam''),
                      (''algorithm'', PDict [(''aligner'', PStr ''bwa'')])]])],
          [''/data/run1:/mnt/in/0''])"
proof -
  have n: "normpath (path_join ''/home/user'' ''/data/run1/sample.bam'') = ''/data/run1/sample.bam''"
    by code_simp
  have j: "path_join ''/home/user'' ''bwa'' = ''/home/user/bwa''" by code_simp
  show ?thesis
    using scenario_A [of scenario_fs] by (simp add: scenario_fs_def n j)
qed

subsection \<open>Determinism of the allocation\<close>

text \<open>
  C5. Two discovery sequences with the same set of directories get the same mount
  mapping: the directory at zero-based position \<open>i\<close> of the sorted, deduplicated
  set is bound to \<^verbatim>\<open>os.path.join(input_dir, str(i))\<close>, which is
  \<^verbatim>\<open><input_dir>/<i>\<close> for a mount root that is not empty and has no trailing slash.
  Neither the order of discovery nor duplicates matter.
\<close>

theorem allocate_mounts_deterministic:
  assumes "set xs = set ys"
  shows "allocate_mounts root xs = allocate_mounts root ys \<and>
         (\<forall>i < card (set xs).
            map_of (allocate_mounts root ys) (sorted_list_of_set (set xs) ! i)
              = Some (path_join root (str_nat i)) \<and>
            (root \<noteq> [] \<and> last root \<noteq> CHR ''/''
               \<longrightarrow> path_join root (str_nat i) = root @ ''/'' @ str_nat i))"
proof -
  have s: "sort (remdups xs) = sort (remdups ys)"
    using assms by (metis sorted_list_of_set_sort_remdups)
  have eq: "allocate_mounts root xs = allocate_mounts root ys"
    by (simp add: allocate_mounts_def s)
  have len: "length (sort (remdups ys)) = card (set xs)"
    using assms by (simp add: length_remdups_card_conv)
  have srt: "sorted_list_of_set (set xs) = sort (remdups ys)"
    using assms by (simp add: sorted_list_of_set_sort_remdups)
  show ?thesis
    using eq len srt by (auto simp: allocate_mounts_lookup path_join_def str_nat_not_abs)
qed

theorem allocate_mounts_deterministic_witness:
  "set [''/data/run2'', ''/data/run1'', ''/data/run2''] = set [''/data/run1'', ''/data/run2''] \<and>
   allocate_mounts ''/mnt/in'' [''/data/run2'', ''/data/run1'', ''/data/run2'']
     = allocate_mounts ''/mnt/in'' [''/data/run1'', ''/data/run2''] \<and>
   allocate_mounts ''/mnt/in'' [''/data/run1'', ''/data/run2'']
     = [(''/data/run1'', ''/mnt/in/0''), (''/data/run2'', ''/mnt/in/1'')]"
proof -
  have s: "set [''/data/run2'', ''/data/run1'', ''/data/run2''] = set [''/data/run1'', ''/data/run2'']"
    by auto
  have v: "allocate_mounts ''/mnt/in'' [''/data/run1'', ''/data/run2'']
     = [(''/data/run1'', ''/mnt/in/0''), (''/data/run2'', ''/mnt/in/1'')]"
    by code_simp
  show ?thesis
    using allocate_mounts_deterministic [OF s, of "''/mnt/in''"] s v by simp
qed

subsection \<open>The keys of the mount mapping\<close>

text \<open>
  C4. Whenever \<^verbatim>\<open>update_config\<close> returns, the mount mapping it built (the one its
  remap pass used and its mount list serialises) has as keys exactly the directories
  that \<^verbatim>\<open>_get_directories\<close> returns for the absolutized samples, each once: every
  collected directory has a mount point and no other directory has one.
\<close>

theorem mount_keys_are_collected_directories:
  assumes "update_config fs fcdir config input_dir = Inr (config', specs)"
  shows "\<exists>details ds absdetails directories dss.
           py_getitem config ''details'' = Inr details \<and> py_iter details = Inr ds \<and>
           absolutize_details fs fcdir ds = Inr (absdetails, directories) \<and>
           try_map (get_directories fs) absdetails = Inr dss \<and>
           fst ` set (allocate_mounts input_dir directories) = set (concat dss) \<and>
           distinct (map fst (allocate_mounts input_dir directories)) \<and>
           specs = map mount_spec (allocate_mounts input_dir directories) \<and>
           (\<exists>remapped. py_getitem config' ''details'' = Inr (PSeq ListSeq remapped) \<and>
              try_map (\<lambda>d. remap_directories fs d (allocate_mounts input_dir directories)) absdetails
                = Inr remapped)"
proof -
  from assms obtain details ds absdetails directories remapped ckvs
    where g: "py_getitem config ''details'' = Inr details"
      and i: "py_iter details = Inr ds"
      and a: "absolutize_details fs fcdir ds = Inr (absdetails, directories)"
      and r: "try_map (\<lambda>d. remap_directories fs d (allocate_mounts input_dir directories)) absdetails
                = Inr remapped"
      and c: "config = PDict ckvs"
      and c': "config' = PDict (AList.update ''details'' (PSeq ListSeq remapped) ckvs)"
      and s: "specs = map mount_spec (allocate_mounts input_dir directories)"
    unfolding update_config_def
    by (auto split: sum.splits pyval.splits prod.splits simp: Let_def)
  from absolutize_details_dirs [OF a] obtain dss
    where dss: "try_map (get_directories fs) absdetails = Inr dss" and cat: "directories = concat dss"
    by blast
  have g': "py_getitem config' ''details'' = Inr (PSeq ListSeq remapped)"
    by (simp add: c' py_getitem_def update_conv')
  show ?thesis
    using g i a dss cat r s g' allocate_mounts_dom [of input_dir directories]
      allocate_mounts_distinct [of input_dir directories]
    by blast
qed

theorem mount_keys_are_collected_directories_witness:
  "update_config scenario_fs (Some ''/data/run1'') lane_config ''/mnt/in''
     = Inr (lane_remapped, [''/data/run1:/mnt/in/0'']) \<and>
   (\<exists>absdetails directories dss.
      absolutize_details scenario_fs (Some ''/data/run1'') [lane_sample]
        = Inr (absdetails, directories) \<and>
      try_map (get_directories scenario_fs) absdetails = Inr dss \<and>
      fst ` set (allocate_mounts ''/mnt/in'' directories) = set (concat dss) \<and>
      [''/data/run1:/mnt/in/0''] = map mount_spec (allocate_mounts ''/mnt/in'' directories))"
proof -
  have u: "update_config scenario_fs (Some ''/data/run1'') lane_config ''/mnt/in''
     = Inr (lane_remapped, [''/data/run1:/mnt/in/0''])"
    by code_simp
  have g: "py_getitem lane_config ''details'' = Inr (PSeq ListSeq [lane_sample])"
    by code_simp
  show ?thesis
    using mount_keys_are_collected_directories [OF u] u g
    by (auto simp: py_iter_def)
qed

subsection \<open>A mapping miss raises\<close>

text \<open>
  C6. If a leaf treated as a path has a containing directory that is not a key of the
  mount mapping, \<^verbatim>\<open>_remap_directories\<close> raises: it returns no tree at all, so none
  with a path mapped wrongly.
\<close>

theorem remap_raises_on_mapping_miss:
  assumes "mapping_miss fs mounts xs"
  shows "\<exists>e. remap_directories fs xs mounts = Inl e"
  using assms
proof (induction fs xs mounts rule: remap_directories.induct)
  case (1 fs kvs mounts)
  from "1.prems" obtain kv where kv: "kv \<in> set kvs"
    and miss: "(case snd kv of
           PDict sub \<Rightarrow> mapping_miss fs mounts (snd kv)
         | v \<Rightarrow> path_leaf fs v \<and> leaf_dirs_missing mounts v)"
    by (auto simp: list_ex_iff)
  let ?entry = "remap_entry fs mounts"
  have "\<exists>e. ?entry kv = Inl e"
  proof (cases "snd kv")
    case (PDict sub)
    with miss have "mapping_miss fs mounts (snd kv)" by simp
    from "1.IH" [OF kv PDict this] PDict show ?thesis by (auto simp: remap_entry_def)
  next
    case (PStr s)
    with miss show ?thesis
      by (auto simp: path_leaf_def leaf_dirs_missing_def remap_path_miss remap_entry_def)
  next
    case (PSeq kind xs)
    with miss obtain x0 rest where xs: "xs = x0 # rest" and ex: "py_exists fs x0 = Inr True"
      by (cases xs) (simp_all add: path_leaf_def)
    from miss PSeq have "list_ex (dir_missing mounts) xs"
      by (simp add: leaf_dirs_missing_def)
    then obtain x where xin: "x \<in> set xs" and dm: "dir_missing mounts x"
      by (auto simp: list_ex_iff)
    from dm obtain s where xs': "x = PStr s" and none: "map_of mounts (dirname s) = None"
      by (cases x) simp_all
    have "remap_path mounts x = Inl KeyError"
      using none by (simp add: xs' remap_path_miss)
    with xin obtain e where "try_map (remap_path mounts) xs = Inl e"
      using try_map_Inl [of x xs "remap_path mounts" KeyError] by blast
    with PSeq xs ex show ?thesis
      by (simp add: remap_entry_def)
  qed (use miss in \<open>simp_all add: path_leaf_def\<close>)
  then obtain e0 where "?entry kv = Inl e0" by blast
  with kv obtain e where "try_map ?entry kvs = Inl e"
    using try_map_Inl [of kv kvs ?entry e0] by blast
  then show ?case unfolding remap_directories_dict by simp
qed simp_all

theorem remap_raises_on_mapping_miss_witness:
  "mapping_miss scenario_fs [(''/data/run2'', ''/mnt/in/0'')]
     (PDict [(''algorithm'', PDict [(''files'', PStr ''/data/run1/sample.bam'')])]) \<and>
   (\<exists>e. remap_directories scenario_fs
          (PDict [(''algorithm'', PDict [(''files'', PStr ''/data/run1/sample.bam'')])])
          [(''/data/run2'', ''/mnt/in/0'')] = Inl e)"
proof -
  have m: "mapping_miss scenario_fs [(''/data/run2'', ''/mnt/in/0'')]
     (PDict [(''algorithm'', PDict [(''files'', PStr ''/data/run1/sample.bam'')])])"
    by code_simp
  from remap_raises_on_mapping_miss [OF m] m show ?thesis by simp
qed


subsection \<open>The remap pass keeps the shape of the tree\<close>

text \<open>
  C8. Whenever \<^verbatim>\<open>_remap_directories\<close> returns, its result has the keys of the input
  at every nesting level, the same nesting depth and the same length of every sequence
  leaf, and every leaf that is not treated as a path is equal to the input's.
\<close>

theorem remap_preserves_shape:
  assumes "remap_directories fs xs mounts = Inr out"
  shows "same_shape xs out \<and> dict_depth out = dict_depth xs \<and> other_leaves_kept fs xs out"
  using assms remap_same_shape same_shape_depth remap_other_leaves_kept by blast

theorem remap_preserves_shape_witness:
  "remap_directories scenario_fs
      (PDict [(''lane'', PSeq ListSeq [PInt (- 1)]),
              (''files'', PSeq TupleSeq [PStr ''/data/run1/sample.bam'', PStr ''/data/run1/b.bam'']),
              (''algorithm'', PDict [(''aligner'', PStr ''bwa'')])])
      [(''/data/run1'', ''/mnt/in/0'')]
     = Inr (PDict [(''lane'', PSeq ListSeq [PInt (- 1)]),
                   (''files'', PSeq ListSeq [PStr ''/mnt/in/0/sample.bam'', PStr ''/mnt/in/0/b.bam'']),
                   (''algorithm'', PDict [(''aligner'', PStr ''bwa'')])]) \<and>
   same_shape
      (PDict [(''lane'', PSeq ListSeq [PInt (- 1)]),
              (''files'', PSeq TupleSeq [PStr ''/data/run1/sample.bam'', PStr ''/data/run1/b.bam'']),
              (''algorithm'', PDict [(''aligner'', PStr ''bwa'')])])
      (PDict [(''lane'', PSeq ListSeq [PInt (- 1)]),
              (''files'', PSeq ListSeq [PStr ''/mnt/in/0/sample.bam'', PStr ''/mnt/in/0/b.bam'']),
              (''algorithm'', PDict [(''aligner'', PStr ''bwa'')])]) \<and>
   other_leaves_kept scenario_fs
      (PDict [(''lane'', PSeq ListSeq [PInt (- 1)]),
              (''files'', PSeq TupleSeq [PStr ''/data/run1/sample.bam'', PStr ''/data/run1/b.bam'']),
              (''algorithm'', PDict [(''aligner'', PStr ''bwa'')])])
      (PDict [(''lane'', PSeq ListSeq [PInt (- 1)]),
              (''files'', PSeq ListSeq [PStr ''/mnt/in/0/sample.bam'', PStr ''/mnt/in/0/b.bam'']),
              (''algorithm'', PDict [(''aligner'', PStr ''bwa'')])])"
proof -
  have r: "remap_directories scenario_fs
      (PDict [(''lane'', PSeq ListSeq [PInt (- 1)]),
              (''files'', PSeq TupleSeq [PStr ''/data/run1/sample.bam'', PStr ''/data/run1/b.bam'']),
              (''algorithm'', PDict [(''aligner'', PStr ''bwa'')])])
      [(''/data/run1'', ''/mnt/in/0'')]
     = Inr (PDict [(''lane'', PSeq ListSeq [PInt (- 1)]),
                   (''files'', PSeq ListSeq [PStr ''/mnt/in/0/sample.bam'', PStr ''/mnt/in/0/b.bam'']),
                   (''algorithm'', PDict [(''aligner'', PStr ''bwa'')])])"
    by code_simp
  from remap_preserves_shape [OF r] r show ?thesis by simp
qed

subsection \<open>The first-element test on sequences\<close>

text \<open>
  C7. The scalar branch of \<^verbatim>\<open>_get_directories\<close> and \<^verbatim>\<open>_remap_directories\<close> asks for
  an existing and absolute path; the sequence branch asks only that the first element
  exists. On a host whose working directory holds an entry \<^verbatim>\<open>gatk\<close>, the string
  \<^verbatim>\<open>gatk\<close> contributes no directory, but the relative list \<^verbatim>\<open>[gatk, freebayes]\<close> is
  collected with the empty directory and rewritten, and the mount list binds the empty
  host path.
\<close>

theorem relative_first_element_is_collected:
  "\<not> isabs ''gatk'' \<and>
   get_directories gatk_fs (PDict [(''variantcaller'', PStr ''gatk'')]) = Inr [] \<and>
   get_directories gatk_fs
      (PDict [(''variantcaller'', PSeq ListSeq [PStr ''gatk'', PStr ''freebayes''])])
     = Inr ['''', ''''] \<and>
   update_config gatk_fs None gatk_config ''/mnt/in''
     = Inr (PDict [(''details'',
              PSeq ListSeq
                [PDict [(''description'', PStr ''Sample1''),
                        (''algorithm'',
                           PDict [(''variantcaller'',
                              PSeq ListSeq [PStr ''/mnt/in/0/gatk'', PStr ''/mnt/in/0/freebayes''])])]])],
            ['':/mnt/in/0''])"
  by code_simp

subsection \<open>The system mounts\<close>

text \<open>
  C9. Write \<open>r d\<close> for the resolved host directory of a name \<open>d\<close>, the normalised real
  path of \<^verbatim>\<open>datadir/d\<close>. Where the host refuses none of the four creations,
  \<^verbatim>\<open>prepare_system\<close> returns the four mount specifications
  \<^verbatim>\<open>r d:docker_biodata_dir/d\<close>, in the order genomes, liftOver, gemini_data, galaxy;
  afterwards the four resolved directories exist, nothing that existed is gone, everything
  new is an absent directory of the four or an ancestor of one, and a second call returns
  the same list and leaves the host as it is.
\<close>

theorem prepare_system_contract:
  assumes "\<forall>d \<in> set [''genomes'', ''liftOver'', ''gemini_data'', ''galaxy''].
             \<not> fs_mkdir_denied fs (normpath (fs_realpath fs (path_join datadir d)))"
  shows "\<exists>fs'. prepare_system fs datadir docker_biodata_dir
                 = Inr (map (\<lambda>d. normpath (fs_realpath fs (path_join datadir d))
                                    @ '':'' @ docker_biodata_dir @ ''/'' @ d)
                            [''genomes'', ''liftOver'', ''gemini_data'', ''galaxy''], fs') \<and>
           (\<forall>d \<in> set [''genomes'', ''liftOver'', ''gemini_data'', ''galaxy''].
               fs_exists fs' (normpath (fs_realpath fs (path_join datadir d)))) \<and>
           (\<forall>p. fs_exists fs p \<longrightarrow> fs_exists fs' p) \<and>
           (\<forall>p. fs_exists fs' p \<longrightarrow> fs_exists fs p \<or>
               (\<exists>d \<in> set [''genomes'', ''liftOver'', ''gemini_data'', ''galaxy''].
                   \<not> fs_exists fs (normpath (fs_realpath fs (path_join datadir d))) \<and>
                   (p = normpath (fs_realpath fs (path_join datadir d)) \<or>
                    p \<in> set (path_ancestors (normpath (fs_realpath fs (path_join datadir d))))))) \<and>
           prepare_system fs' datadir docker_biodata_dir
             = Inr (map (\<lambda>d. normpath (fs_realpath fs (path_join datadir d))
                                @ '':'' @ docker_biodata_dir @ ''/'' @ d)
                        [''genomes'', ''liftOver'', ''gemini_data'', ''galaxy''], fs')"
proof -
  let ?names = "[''genomes'', ''liftOver'', ''gemini_data'', ''galaxy'']"
  have sd: "system_dirs = ?names" by (simp add: system_dirs_def)
  have sm: "system_mount fs datadir docker_biodata_dir
      = (\<lambda>d. normpath (fs_realpath fs (path_join datadir d)) @ '':'' @ docker_biodata_dir @ ''/'' @ d)"
    by (simp add: system_mount_def cur_d_def fun_eq_iff)
  from assms have h: "\<forall>d \<in> set system_dirs. \<not> fs_mkdir_denied fs (cur_d fs datadir d)"
    unfolding sd cur_d_def .
  from prepare_loop_ok [OF h, of docker_biodata_dir "[]"] obtain fs' where
    l: "prepare_loop datadir docker_biodata_dir system_dirs ([], fs)
          = Inr ([] @ map (system_mount fs datadir docker_biodata_dir) system_dirs, fs')"
    and r: "fs_realpath fs' = fs_realpath fs"
    and mono: "\<forall>p. fs_exists fs p \<longrightarrow> fs_exists fs' p"
    and ex: "\<forall>d \<in> set system_dirs. fs_exists fs' (cur_d fs datadir d)"
    and fr: "\<forall>p. fs_exists fs' p \<longrightarrow> fs_exists fs p \<or> created_by fs datadir system_dirs p"
    by blast
  have c: "\<And>e. cur_d fs' datadir e = cur_d fs datadir e"
    using r by (rule cur_d_cong)
  have s: "system_mount fs' datadir docker_biodata_dir = system_mount fs datadir docker_biodata_dir"
    by (simp add: system_mount_def c fun_eq_iff)
  from ex have "\<forall>d \<in> set system_dirs. fs_exists fs' (cur_d fs' datadir d)"
    by (simp add: c)
  from prepare_loop_noop [OF this, of docker_biodata_dir "[]"]
  have again: "prepare_system fs' datadir docker_biodata_dir
             = Inr (map (system_mount fs datadir docker_biodata_dir) system_dirs, fs')"
    by (simp add: prepare_system_def s)
  from l have first: "prepare_system fs datadir docker_biodata_dir
                 = Inr (map (system_mount fs datadir docker_biodata_dir) system_dirs, fs')"
    by (simp add: prepare_system_def)
  note first' = first [unfolded sm sd]
  note again' = again [unfolded sm sd]
  note ex' = ex [unfolded sd cur_d_def]
  note fr' = fr [unfolded created_by_def list_ex_iff sd cur_d_def]
  show ?thesis
    apply (rule exI [of _ fs'])
    apply (intro conjI)
        apply (rule first')
       apply (rule ex')
      apply (rule mono)
     apply (rule fr')
    apply (rule again')
    done
qed

theorem prepare_system_contract_witness:
  "list_all (\<lambda>d. \<not> fs_mkdir_denied linked_data_fs
                     (normpath (fs_realpath linked_data_fs (path_join ''/data'' d))))
      [''genomes'', ''liftOver'', ''gemini_data'', ''galaxy''] \<and>
   (\<exists>fs'. prepare_system linked_data_fs ''/data'' ''/mnt/biodata''
            = Inr ([''/store/genomes:/mnt/biodata/genomes'', ''/store/liftOver:/mnt/biodata/liftOver'',
                    ''/store/gemini_data:/mnt/biodata/gemini_data'', ''/store/galaxy:/mnt/biodata/galaxy''],
                   fs') \<and>
          fs_exists fs' ''/store/genomes'' \<and> fs_exists fs' ''/store/liftOver'' \<and>
          fs_exists fs' ''/store/gemini_data'' \<and> fs_exists fs' ''/store/galaxy'' \<and>
          fs_exists fs' ''/store'' \<and> \<not> fs_exists fs' ''/store/other'' \<and>
          prepare_system fs' ''/data'' ''/mnt/biodata''
            = Inr ([''/store/genomes:/mnt/biodata/genomes'', ''/store/liftOver:/mnt/biodata/liftOver'',
                    ''/store/gemini_data:/mnt/biodata/gemini_data'', ''/store/galaxy:/mnt/biodata/galaxy''],
                   fs'))"
proof -
  let ?names = "[''genomes'', ''liftOver'', ''gemini_data'', ''galaxy'']"
  let ?r = "\<lambda>d. normpath (fs_realpath linked_data_fs (path_join ''/data'' d))"
  have h: "\<forall>d \<in> set ?names. \<not> fs_mkdir_denied linked_data_fs (?r d)"
    by (simp add: linked_data_fs_def)
  have m: "map (\<lambda>d. ?r d @ '':'' @ ''/mnt/biodata'' @ ''/'' @ d) ?names
       = [''/store/genomes:/mnt/biodata/genomes'', ''/store/liftOver:/mnt/biodata/liftOver'',
          ''/store/gemini_data:/mnt/biodata/gemini_data'', ''/store/galaxy:/mnt/biodata/galaxy'']"
    by code_simp
  have c: "map ?r ?names
       = [''/store/genomes'', ''/store/liftOver'', ''/store/gemini_data'', ''/store/galaxy'']"
    by code_simp
  have n1: "\<not> (fs_exists linked_data_fs ''/store/other'' \<or>
       (\<exists>d \<in> set ?names. \<not> fs_exists linked_data_fs (?r d) \<and>
            (''/store/other'' = ?r d \<or> ''/store/other'' \<in> set (path_ancestors (?r d)))))"
    by code_simp
  have st: "fs_exists linked_data_fs ''/store''"
    by (simp add: linked_data_fs_def)
  from prepare_system_contract [OF h, of "''/mnt/biodata''"] obtain fs' where
    1: "prepare_system linked_data_fs ''/data'' ''/mnt/biodata''
          = Inr (map (\<lambda>d. ?r d @ '':'' @ ''/mnt/biodata'' @ ''/'' @ d) ?names, fs')"
    and 2: "\<forall>d \<in> set ?names. fs_exists fs' (?r d)"
    and 3: "\<forall>p. fs_exists linked_data_fs p \<longrightarrow> fs_exists fs' p"
    and 4: "\<forall>p. fs_exists fs' p \<longrightarrow> fs_exists linked_data_fs p \<or>
               (\<exists>d \<in> set ?names. \<not> fs_exists linked_data_fs (?r d) \<and>
                   (p = ?r d \<or> p \<in> set (path_ancestors (?r d))))"
    and 5: "prepare_system fs' ''/data'' ''/mnt/biodata''
          = Inr (map (\<lambda>d. ?r d @ '':'' @ ''/mnt/biodata'' @ ''/'' @ d) ?names, fs')"
    by blast
  from 2 have "list_all (fs_exists fs') (map ?r ?names)"
    by (simp add: list_all_iff)
  then have e: "fs_exists fs' ''/store/genomes'' \<and> fs_exists fs' ''/store/liftOver'' \<and>
          fs_exists fs' ''/store/gemini_data'' \<and> fs_exists fs' ''/store/galaxy''"
    unfolding c by simp
  from 3 st have s: "fs_exists fs' ''/store''" by blast
  from 4 [rule_format, of "''/store/other''"] n1 have o: "\<not> fs_exists fs' ''/store/other''"
    by blast
  from h have "list_all (\<lambda>d. \<not> fs_mkdir_denied linked_data_fs (?r d)) ?names"
    by (simp add: list_all_iff)
  then show ?thesis using 1 5 e s o unfolding m by blast
qed


subsection \<open>The caller's list of base directories\<close>

text \<open>
  C10, as the code has it. \<^verbatim>\<open>abs_file_paths\<close> returns a value that is not a mapping
  before it touches \<^verbatim>\<open>base_dirs\<close>: the caller's list is then unchanged.
\<close>

theorem abs_file_paths_early_return:
  "abs_file_paths scenario_fs (PStr ''sample.bam'') (Some [''/data/run1'']) []
     = (Inr (PStr ''sample.bam''), Some [''/data/run1''])"
  by (simp add: abs_file_paths_def)

text \<open>
  C10, amended. For a mapping and a non-empty caller's list, the working directory is
  appended to that list in place, also when the call then raises: after the call the
  caller's list is one element longer.
\<close>

theorem abs_file_paths_appends_cwd:
  assumes "base_dirs \<noteq> []"
  shows "snd (abs_file_paths fs (PDict kvs) (Some base_dirs) ignore)
           = Some (base_dirs @ [fs_cwd fs])"
  using assms by (cases base_dirs) (auto simp: abs_file_paths_def split: sum.splits)

theorem abs_file_paths_appends_cwd_witness:
  "[''/data/run1''] \<noteq> [] \<and>
   snd (abs_file_paths scenario_fs
          (PDict [(''files'', PStr ''sample.bam''),
                  (''algorithm'', PDict [(''aligner'', PStr ''bwa'')])])
          (Some [''/data/run1'']) top_ignore)
     = Some [''/data/run1'', ''/home/user'']"
  using abs_file_paths_appends_cwd [of "[''/data/run1'']" scenario_fs _ top_ignore]
  by (simp add: scenario_fs_def)


subsection \<open>The ignore sets\<close>

text \<open>
  C2, as the code has it. The ignore sets are parameters of \<^verbatim>\<open>abs_file_paths\<close> only.
  \<^verbatim>\<open>_get_directories\<close> and \<^verbatim>\<open>_remap_directories\<close> take none: a description that is an
  absolute existing path is collected and rewritten like any other leaf.
\<close>

theorem ignored_value_remapped:
  "''description'' \<in> set top_ignore \<and>
   update_config scenario_fs None described_config ''/mnt/in''
     = Inr (PDict [(''details'',
              PSeq ListSeq
                [PDict [(''description'', PStr ''/mnt/in/0/sample.bam''),
                        (''algorithm'', PDict [(''aligner'', PStr ''bwa'')])]])],
            [''/data/run1:/mnt/in/0''])"
  by code_simp

text \<open>
  C2, amended. In every sample that \<^verbatim>\<open>update_config\<close> processes, a value under a key
  of the top-level ignore set, and a value under a key of the algorithm-level ignore set
  inside the \<^verbatim>\<open>algorithm\<close> mapping, is the same after the absolutize pass, whatever it
  names; and it is the same in the returned configuration unless it is a mapping or a
  leaf that the remap pass treats as a path. Such a leaf, when it is a string (absolute
  and existing), is returned rewritten to the mount point of its directory.
\<close>

theorem ignored_keys_respected:
  assumes run: "update_config fs fcdir config input_dir = Inr (config', specs)"
      and det: "py_getitem config ''details'' = Inr details" "py_iter details = Inr ds"
      and i: "i < length ds" and d: "ds ! i = PDict kvs"
  shows "\<exists>absdetails directories abs_kvs remapped kvs'.
           absolutize_details fs fcdir ds = Inr (absdetails, directories) \<and>
           absdetails ! i = PDict abs_kvs \<and>
           py_getitem config' ''details'' = Inr (PSeq ListSeq remapped) \<and>
           length remapped = length ds \<and> remapped ! i = PDict kvs' \<and>
           (\<forall>k v. k \<in> set top_ignore \<and> map_of kvs k = Some v \<longrightarrow>
               map_of abs_kvs k = Some v \<and>
               ((\<forall>sub. v \<noteq> PDict sub) \<and> \<not> path_leaf fs v \<longrightarrow> map_of kvs' k = Some v) \<and>
               (\<forall>s. v = PStr s \<and> path_leaf fs v \<longrightarrow>
                  (\<exists>m. map_of (allocate_mounts input_dir directories) (dirname s) = Some m \<and>
                       map_of kvs' k = Some (PStr (path_join m (snd (path_split s))))))) \<and>
           (\<forall>akvs k v. map_of kvs ''algorithm'' = Some (PDict akvs) \<and>
                       k \<in> set algorithm_ignore \<and> map_of akvs k = Some v \<longrightarrow>
               (\<exists>abs_akvs. map_of abs_kvs ''algorithm'' = Some (PDict abs_akvs) \<and>
                           map_of abs_akvs k = Some v) \<and>
               ((\<forall>sub. v \<noteq> PDict sub) \<and> \<not> path_leaf fs v \<longrightarrow>
                   (\<exists>akvs'. map_of kvs' ''algorithm'' = Some (PDict akvs') \<and>
                            map_of akvs' k = Some v)) \<and>
               (\<forall>s. v = PStr s \<and> path_leaf fs v \<longrightarrow>
                  (\<exists>m akvs'. map_of (allocate_mounts input_dir directories) (dirname s) = Some m \<and>
                       map_of kvs' ''algorithm'' = Some (PDict akvs') \<and>
                       map_of akvs' k = Some (PStr (path_join m (snd (path_split s)))))))"
proof -
  from run obtain absdetails directories remapped ckvs where
    a: "absolutize_details fs fcdir ds = Inr (absdetails, directories)"
    and r: "try_map (\<lambda>d. remap_directories fs d (allocate_mounts input_dir directories)) absdetails
           = Inr remapped"
    and c': "config' = PDict (AList.update ''details'' (PSeq ListSeq remapped) ckvs)"
    using det by (elim update_config_stages) simp
  let ?mounts = "allocate_mounts input_dir directories"
  from absolutize_details_nth(1) [OF a] have len: "length absdetails = length ds" .
  from absolutize_details_nth(2) [OF a i] d obtain dirs where
    s: "absolutize_sample fs fcdir (PDict kvs) = Inr (absdetails ! i, dirs)"
    by auto
  from sample_ignored [OF s] obtain abs_kvs where ai: "absdetails ! i = PDict abs_kvs"
    and top: "\<And>k v. k \<in> set top_ignore \<Longrightarrow> map_of kvs k = Some v \<Longrightarrow> map_of abs_kvs k = Some v"
    and alg: "\<And>akvs. map_of kvs ''algorithm'' = Some (PDict akvs) \<Longrightarrow>
        \<exists>abs_akvs. map_of abs_kvs ''algorithm'' = Some (PDict abs_akvs) \<and>
           (\<forall>k v. k \<in> set algorithm_ignore \<and> map_of akvs k = Some v
                  \<longrightarrow> map_of abs_akvs k = Some v)"
    by auto
  from try_map_nth [OF r, of i] i len ai
  have ri: "remap_directories fs (PDict abs_kvs) ?mounts = Inr (remapped ! i)" by simp
  from remap_sample_kept [OF ri] obtain kvs' where k': "remapped ! i = PDict kvs'"
    and kept: "\<And>k v. map_of abs_kvs k = Some v \<Longrightarrow> \<forall>sub. v \<noteq> PDict sub \<Longrightarrow> \<not> path_leaf fs v
                 \<Longrightarrow> map_of kvs' k = Some v"
    and sub: "\<And>k sub. map_of abs_kvs k = Some (PDict sub) \<Longrightarrow>
        \<exists>r'. map_of kvs' k = Some r' \<and> remap_directories fs (PDict sub) ?mounts = Inr r'"
    by auto
  have 1: "map_of abs_kvs k = Some v \<and>
           ((\<forall>sub. v \<noteq> PDict sub) \<and> \<not> path_leaf fs v \<longrightarrow> map_of kvs' k = Some v) \<and>
           (\<forall>s. v = PStr s \<and> path_leaf fs v \<longrightarrow>
                  (\<exists>m. map_of ?mounts (dirname s) = Some m \<and>
                       map_of kvs' k = Some (PStr (path_join m (snd (path_split s))))))"
    if "k \<in> set top_ignore" and "map_of kvs k = Some v" for k v
    using top [OF that] kept remap_sample_str [OF ri [unfolded k']] by auto
  have 2: "(\<exists>abs_akvs. map_of abs_kvs ''algorithm'' = Some (PDict abs_akvs) \<and>
                           map_of abs_akvs k = Some v) \<and>
               ((\<forall>sub. v \<noteq> PDict sub) \<and> \<not> path_leaf fs v \<longrightarrow>
                   (\<exists>akvs'. map_of kvs' ''algorithm'' = Some (PDict akvs') \<and>
                            map_of akvs' k = Some v)) \<and>
               (\<forall>s. v = PStr s \<and> path_leaf fs v \<longrightarrow>
                  (\<exists>m akvs'. map_of ?mounts (dirname s) = Some m \<and>
                       map_of kvs' ''algorithm'' = Some (PDict akvs') \<and>
                       map_of akvs' k = Some (PStr (path_join m (snd (path_split s))))))"
    if m: "map_of kvs ''algorithm'' = Some (PDict akvs)"
      and k: "k \<in> set algorithm_ignore" and v: "map_of akvs k = Some v" for akvs k v
  proof -
    from alg [OF m] k v obtain abs_akvs where
      aa: "map_of abs_kvs ''algorithm'' = Some (PDict abs_akvs)" and av: "map_of abs_akvs k = Some v"
      by blast
    from sub [OF aa] obtain r' where r': "map_of kvs' ''algorithm'' = Some r'"
      and rr: "remap_directories fs (PDict abs_akvs) ?mounts = Inr r'" by blast
    from remap_sample_kept [OF rr] obtain akvs' where ra: "r' = PDict akvs'"
      and ka: "\<And>k v. map_of abs_akvs k = Some v \<Longrightarrow> \<forall>sub. v \<noteq> PDict sub \<Longrightarrow> \<not> path_leaf fs v
                 \<Longrightarrow> map_of akvs' k = Some v"
      by auto
    have "\<exists>m. map_of ?mounts (dirname s) = Some m \<and>
              map_of akvs' k = Some (PStr (path_join m (snd (path_split s))))"
      if "v = PStr s" and "path_leaf fs v" for s
      using remap_sample_str [OF rr [unfolded ra]] av that by simp
    with aa av r' ra ka show ?thesis by auto
  qed
  have 3: "py_getitem config' ''details'' = Inr (PSeq ListSeq remapped)"
    by (simp add: c' details_after)
  have 4: "length remapped = length ds"
    using try_map_length [OF r] len by simp
  from a ai 3 4 k' 1 2 show ?thesis by blast
qed


theorem ignored_keys_respected_witness:
  "update_config scenario_fs (Some ''/data/run1'') ignoring_config ''/mnt/in''
     = Inr (PDict [(''details'',
              PSeq ListSeq
                [PDict [(''description'', PStr ''sample.bam''),
                        (''lane'', PSeq ListSeq [PInt (- 1)]),
                        (''files'', PStr ''/mnt/in/0/sample.bam''),
                        (''algorithm'', PDict [(''variantcaller'', PStr ''sample.bam'')])]])],
            [''/data/run1:/mnt/in/0'']) \<and>
   (\<exists>config' specs remapped kvs' akvs'.
      update_config scenario_fs (Some ''/data/run1'') ignoring_config ''/mnt/in''
        = Inr (config', specs) \<and>
      py_getitem config' ''details'' = Inr (PSeq ListSeq remapped) \<and>
      remapped ! 0 = PDict kvs' \<and>
      map_of kvs' ''description'' = Some (PStr ''sample.bam'') \<and>
      map_of kvs' ''lane'' = Some (PSeq ListSeq [PInt (- 1)]) \<and>
      map_of kvs' ''algorithm'' = Some (PDict akvs') \<and>
      map_of akvs' ''variantcaller'' = Some (PStr ''sample.bam''))"
proof -
  let ?kvs = "[(''description'', PStr ''sample.bam''),
               (''lane'', PSeq ListSeq [PInt (- 1)]),
               (''files'', PStr ''sample.bam''),
               (''algorithm'', PDict [(''variantcaller'', PStr ''sample.bam'')])]"
  let ?out = "PDict [(''details'',
              PSeq ListSeq
                [PDict [(''description'', PStr ''sample.bam''),
                        (''lane'', PSeq ListSeq [PInt (- 1)]),
                        (''files'', PStr ''/mnt/in/0/sample.bam''),
                        (''algorithm'', PDict [(''variantcaller'', PStr ''sample.bam'')])]])]"
  have run: "update_config scenario_fs (Some ''/data/run1'') ignoring_config ''/mnt/in''
     = Inr (?out, [''/data/run1:/mnt/in/0''])"
    by code_simp
  have g: "py_getitem ignoring_config ''details'' = Inr (PSeq ListSeq [PDict ?kvs])"
    by code_simp
  have it: "py_iter (PSeq ListSeq [PDict ?kvs]) = Inr [PDict ?kvs]"
    by (simp add: py_iter_def)
  have nl: "\<not> path_leaf scenario_fs (PStr ''sample.bam'')"
    and nn: "\<not> path_leaf scenario_fs (PSeq ListSeq [PInt (- 1)])"
    by code_simp+
  have ti: "''description'' \<in> set top_ignore" and tl: "''lane'' \<in> set top_ignore"
    and ai: "''variantcaller'' \<in> set algorithm_ignore"
    by (simp_all add: top_ignore_def algorithm_ignore_def)
  from ignored_keys_respected [OF run g it, of 0 ?kvs]
  obtain remapped kvs' where
    1: "py_getitem ?out ''details'' = Inr (PSeq ListSeq remapped)"
    and 2: "remapped ! 0 = PDict kvs'"
    and 3: "\<forall>k v. k \<in> set top_ignore \<and> map_of ?kvs k = Some v \<longrightarrow>
               ((\<forall>sub. v \<noteq> PDict sub) \<and> \<not> path_leaf scenario_fs v \<longrightarrow> map_of kvs' k = Some v)"
    and 4: "\<forall>akvs k v. map_of ?kvs ''algorithm'' = Some (PDict akvs) \<and>
                       k \<in> set algorithm_ignore \<and> map_of akvs k = Some v \<longrightarrow>
               ((\<forall>sub. v \<noteq> PDict sub) \<and> \<not> path_leaf scenario_fs v \<longrightarrow>
                   (\<exists>akvs'. map_of kvs' ''algorithm'' = Some (PDict akvs') \<and>
                            map_of akvs' k = Some v))"
    by auto
  from 3 [rule_format, of "''description''" "PStr ''sample.bam''"] ti nl
  have 5: "map_of kvs' ''description'' = Some (PStr ''sample.bam'')"
    by simp
  from 3 [rule_format, of "''lane''" "PSeq ListSeq [PInt (- 1)]"] tl nn
  have 6: "map_of kvs' ''lane'' = Some (PSeq ListSeq [PInt (- 1)])"
    by simp
  from 4 [rule_format, of "[(''variantcaller'', PStr ''sample.bam'')]" "''variantcaller''" "PStr ''sample.bam''"]
    ai nl
  obtain akvs' where "map_of kvs' ''algorithm'' = Some (PDict akvs')"
    and "map_of akvs' ''variantcaller'' = Some (PStr ''sample.bam'')"
    by auto
  with run 1 2 5 6 show ?thesis by blast
qed

subsection \<open>Running the pipeline again\<close>

text \<open>
  C3. Suppose no path under the mount root exists on the host, whether taken as it is
  or resolved against a base directory of the run (for an absolute mount root these are
  the same path). If \<^verbatim>\<open>update_config\<close> is run and then run again on the configuration
  it returned, every field that the first run remapped (a field of an absolutized
  sample whose value the remap pass treats as a path) holds a value under the mount
  root after the first run and the same value after the second.
\<close>

theorem remapped_fields_stable:
  assumes h: "\<forall>s. under_root input_dir s \<longrightarrow>
                (\<forall>b \<in> set ([] # resolve_dirs fs (fcdir_base_dirs fcdir)).
                    \<not> fs_exists fs (path_join b s))"
    and run1: "update_config fs fcdir config input_dir = Inr (config1, specs1)"
    and run2: "update_config fs fcdir config1 input_dir = Inr (config2, specs2)"
    and det: "py_getitem config ''details'' = Inr details" "py_iter details = Inr ds"
             "absolutize_details fs fcdir ds = Inr (absdetails, directories)"
    and i: "i < length absdetails"
    and l: "lookup_path (absdetails ! i) ks = Some v" and p: "path_leaf fs v"
  shows "\<exists>ds1 ds2 v1.
           py_getitem config1 ''details'' = Inr (PSeq ListSeq ds1) \<and>
           py_getitem config2 ''details'' = Inr (PSeq ListSeq ds2) \<and>
           length ds1 = length absdetails \<and> length ds2 = length absdetails \<and>
           lookup_path (ds1 ! i) ks = Some v1 \<and> under_val input_dir v1 \<and>
           lookup_path (ds2 ! i) ks = Some v1"
proof -
  have h_abs: "\<forall>s. under_root input_dir s \<longrightarrow>
      (\<forall>b \<in> set (resolve_dirs fs (fcdir_base_dirs fcdir)). \<not> fs_exists fs (path_join b s))"
    using h by simp
  have h_ex: "\<forall>s. under_root input_dir s \<longrightarrow> \<not> fs_exists fs s"
  proof (intro allI impI)
    fix s assume "under_root input_dir s"
    with h have "\<not> fs_exists fs (path_join [] s)" by simp
    then show "\<not> fs_exists fs s" by (simp add: path_join_empty)
  qed
  \<comment> \<open>the first run\<close>
  let ?mounts = "allocate_mounts input_dir directories"
  from run1 obtain ds1 ckvs where
    r1: "try_map (\<lambda>d. remap_directories fs d ?mounts) absdetails = Inr ds1"
    and c1: "config1 = PDict (AList.update ''details'' (PSeq ListSeq ds1) ckvs)"
    using det by (elim update_config_stages) simp
  have g1: "py_getitem config1 ''details'' = Inr (PSeq ListSeq ds1)"
    by (simp add: c1 details_after)
  have len1: "length ds1 = length absdetails"
    by (rule try_map_length [OF r1])
  from try_map_nth [OF r1 i]
  have ri: "remap_directories fs (absdetails ! i) ?mounts = Inr (ds1 ! i)" .
  have ne: "ks \<noteq> []"
  proof
    assume "ks = []"
    with l have v: "v = absdetails ! i" by simp
    from absolutize_details_nth(1) [OF det(3)] i have "i < length ds" by simp
    from absolutize_details_nth(2) [OF det(3) this] obtain dirs where
      "absolutize_sample fs fcdir (ds ! i) = Inr (absdetails ! i, dirs)" by blast
    from absolutize_sample_dict [OF this] obtain kvs where "absdetails ! i = PDict kvs" by blast
    with v p show False by (simp add: path_leaf_def)
  qed
  from remap_leaf_path [OF ri l p ne] obtain v1 where
    l1: "lookup_path (ds1 ! i) ks = Some v1" and u: "under_val input_dir v1"
    by blast
  \<comment> \<open>the second run, on the result of the first\<close>
  have it: "py_iter (PSeq ListSeq ds1) = Inr ds1"
    by (simp add: py_iter_def)
  from run2 obtain abs2 dirs2 ds2 ckvs2 where
    a2: "absolutize_details fs fcdir ds1 = Inr (abs2, dirs2)"
    and r2: "try_map (\<lambda>d. remap_directories fs d (allocate_mounts input_dir dirs2)) abs2 = Inr ds2"
    and c2: "config2 = PDict (AList.update ''details'' (PSeq ListSeq ds2) ckvs2)"
    using g1 it by (elim update_config_stages) simp
  have g2: "py_getitem config2 ''details'' = Inr (PSeq ListSeq ds2)"
    by (simp add: c2 details_after)
  have len_a2: "length abs2 = length ds1"
    by (rule absolutize_details_nth(1) [OF a2])
  have len2: "length ds2 = length absdetails"
    using try_map_length [OF r2] len_a2 len1 by simp
  from i len1 have i1: "i < length ds1" by simp
  from absolutize_details_nth(2) [OF a2 i1] obtain dirs where
    s2: "absolutize_sample fs fcdir (ds1 ! i) = Inr (abs2 ! i, dirs)" by blast
  from sample_path [OF s2 h_abs l1 u] have la: "lookup_path (abs2 ! i) ks = Some v1" .
  from i1 len_a2 have "i < length abs2" by simp
  from try_map_nth [OF r2 this]
  have "remap_directories fs (abs2 ! i) (allocate_mounts input_dir dirs2) = Inr (ds2 ! i)" .
  from remap_stable_path [OF this h_ex la u] have l2: "lookup_path (ds2 ! i) ks = Some v1" .
  from g1 g2 len1 len2 l1 u l2 show ?thesis by blast
qed

theorem remapped_fields_stable_witness:
  "update_config scenario_fs (Some ''/data/run1'') lane_config ''/mnt/in''
     = Inr (lane_remapped, [''/data/run1:/mnt/in/0'']) \<and>
   update_config scenario_fs (Some ''/data/run1'') lane_remapped ''/mnt/in''
     = Inr (lane_remapped, []) \<and>
   (\<exists>ds1 ds2 v1.
       py_getitem lane_remapped ''details'' = Inr (PSeq ListSeq ds1) \<and>
       py_getitem lane_remapped ''details'' = Inr (PSeq ListSeq ds2) \<and>
       lookup_path (ds1 ! 0) [''files''] = Some v1 \<and> under_val ''/mnt/in'' v1 \<and>
       lookup_path (ds2 ! 0) [''files''] = Some v1)"
proof -
  have h: "\<forall>s. under_root ''/mnt/in'' s \<longrightarrow>
             (\<forall>b \<in> set ([] # resolve_dirs scenario_fs (fcdir_base_dirs (Some ''/data/run1''))).
                 \<not> fs_exists scenario_fs (path_join b s))"
  proof (intro allI impI ballI)
    fix s b assume "under_root ''/mnt/in'' s"
    then obtain zs where s: "s = ''/mnt/in/'' @ zs"
      by (auto simp: under_root_def path_join_def isabs_def prefix_def)
    then have "path_join b s = s" by (simp add: path_join_def isabs_def)
    then show "\<not> fs_exists scenario_fs (path_join b s)"
      by (simp add: s scenario_fs_def)
  qed
  have run1: "update_config scenario_fs (Some ''/data/run1'') lane_config ''/mnt/in''
     = Inr (lane_remapped, [''/data/run1:/mnt/in/0''])"
    by code_simp
  have run2: "update_config scenario_fs (Some ''/data/run1'') lane_remapped ''/mnt/in''
     = Inr (lane_remapped, [])"
    by code_simp
  have g: "py_getitem lane_config ''details'' = Inr (PSeq ListSeq [lane_sample])"
    by code_simp
  have it: "py_iter (PSeq ListSeq [lane_sample]) = Inr [lane_sample]"
    by (simp add: py_iter_def)
  have a: "absolutize_details scenario_fs (Some ''/data/run1'') [lane_sample]
      = Inr ([lane_absolutized], [''/data/run1''])"
    by code_simp
  have l: "lookup_path ([lane_absolutized] ! 0) [''files''] = Some (PStr ''/data/run1/sample.bam'')"
    by (simp add: lane_absolutized_def)
  have p: "path_leaf scenario_fs (PStr ''/data/run1/sample.bam'')"
    by code_simp
  from remapped_fields_stable [OF h run1 run2 g it a _ l p] run1 run2
  show ?thesis by auto
qed

end
